theory Spec2Isabelle
  imports Complex_Main
begin

section \<open>The tile viewer of \<^verbatim>\<open>website/public/app.js\<close>\<close>

text \<open>
  The viewer keeps its state in module-level variables and mutates them from event
  handlers and from the continuations of the asynchronous function
  \<^verbatim>\<open>loadVisibleTiles\<close>. JavaScript runs each handler and each continuation to its next
  \<^verbatim>\<open>await\<close> without interruption, so the model is a state record and one total function
  per handler. JavaScript numbers are modelled exactly: zoom levels, tile indices and the
  canvas size as integers, pixel offsets as rationals (no rounding, no NaN).
\<close>

subsection \<open>Data\<close>

text \<open>A product as parsed from the API; only \<^verbatim>\<open>id\<close> (here \<open>pid\<close>) and \<^verbatim>\<open>max_zoom\<close> reach the
  viewer state (name, description and the cached tile count are only displayed).\<close>

record product =
  pid :: string
  max_zoom :: int

text \<open>The object \<^verbatim>\<open>{ row, col, zoom }\<close> pushed by \<^verbatim>\<open>getVisibleTiles\<close>; its zoom is \<open>tzoom\<close>,
  to keep it apart from the zoom of the viewer state.\<close>

datatype tile = Tile (row: int) (col: int) (tzoom: int)

text \<open>A decoded image is an opaque handle.\<close>

type_synonym image = nat

text \<open>
  An invocation of \<^verbatim>\<open>loadVisibleTiles\<close> suspended at \<^verbatim>\<open>await fetch(url)\<close>: the tile being
  fetched, the product id that went into the URL, and the tiles its \<^verbatim>\<open>for\<close> loop has not
  visited yet.
\<close>

record fetch =
  f_tile :: tile
  f_product :: string
  f_rest :: "tile list"

record state =
  currentProduct :: "product option"
  zoom :: int
  pan :: "rat \<times> rat"
  isDragging :: bool
  dragStart :: "rat \<times> rat"
  tileImages :: "string \<rightharpoonup> image"
  loadingTiles :: "string set"
  canvas_width :: nat
  canvas_height :: nat
  suspended :: "fetch list"

definition TILE_SIZE :: rat where
  "TILE_SIZE = 256"

text \<open>The module's initial bindings, for a canvas of the given size.\<close>

definition init :: "nat \<Rightarrow> nat \<Rightarrow> state" where
  "init w h = \<lparr> currentProduct = None, zoom = 1, pan = (0, 0), isDragging = False,
      dragStart = (0, 0), tileImages = Map.empty, loadingTiles = {},
      canvas_width = w, canvas_height = h, suspended = [] \<rparr>"

subsection \<open>Cache keys\<close>

text \<open>The template literal \<^verbatim>\<open>`${tile.zoom}-${tile.row}-${tile.col}`\<close>: integers in decimal.\<close>

definition digit :: "nat \<Rightarrow> char" where
  "digit d = ''0123456789'' ! d"

fun digits :: "nat \<Rightarrow> string" where
  "digits n = (if n < 10 then [digit n] else digits (n div 10) @ [digit (n mod 10)])"

declare digits.simps [simp del]

definition show_int :: "int \<Rightarrow> string" where
  "show_int i = (if i < 0 then CHR ''-'' # digits (nat (- i)) else digits (nat i))"

definition tile_key :: "tile \<Rightarrow> string" where
  "tile_key t = show_int (tzoom t) @ ''-'' @ show_int (row t) @ ''-'' @ show_int (col t)"

subsection \<open>Tile grid\<close>

text \<open>
  \<^verbatim>\<open>getVisibleTiles\<close>. The start indices are integers; the end indices are the minimum of
  \<^verbatim>\<open>2^zoom - 1\<close> and an integer, and the loops count upwards by one while the counter is
  \<^verbatim>\<open>\<le>\<close> the end index, so they visit the integers up to the floor of the end index.
\<close>

definition tileScale :: "state \<Rightarrow> rat" where
  "tileScale s = TILE_SIZE * 2 powi zoom s"

definition tilesInView :: "state \<Rightarrow> rat" where
  "tilesInView s = 2 powi zoom s"

definition startCol :: "state \<Rightarrow> int" where
  "startCol s = max 0 \<lfloor>- fst (pan s) / tileScale s\<rfloor>"

definition endCol :: "state \<Rightarrow> rat" where
  "endCol s = min (tilesInView s - 1)
     (of_int \<lceil>(of_nat (canvas_width s) - fst (pan s)) / tileScale s\<rceil>)"

definition startRow :: "state \<Rightarrow> int" where
  "startRow s = max 0 \<lfloor>- snd (pan s) / tileScale s\<rfloor>"

definition endRow :: "state \<Rightarrow> rat" where
  "endRow s = min (tilesInView s - 1)
     (of_int \<lceil>(of_nat (canvas_height s) - snd (pan s)) / tileScale s\<rceil>)"

definition getVisibleTiles :: "state \<Rightarrow> tile list" where
  "getVisibleTiles s =
     (case currentProduct s of
        None \<Rightarrow> []
      | Some _ \<Rightarrow>
          concat (map (\<lambda>r. map (\<lambda>c. Tile r c (zoom s)) [startCol s..\<lfloor>endCol s\<rfloor>])
                      [startRow s..\<lfloor>endRow s\<rfloor>]))"

subsection \<open>Fetch coordinator\<close>

text \<open>The test guarding a fetch: the key is neither cached nor marked as loading.\<close>

definition needsFetch :: "state \<Rightarrow> string \<Rightarrow> bool" where
  "needsFetch s key \<longleftrightarrow> tileImages s key = None \<and> key \<notin> loadingTiles s"

text \<open>
  The \<^verbatim>\<open>for\<close> loop of \<^verbatim>\<open>loadVisibleTiles\<close>, from a given position up to its next
  \<^verbatim>\<open>await fetch(url)\<close> or its end. A tile that fails the test is skipped. Otherwise the key
  is added to \<^verbatim>\<open>loadingTiles\<close> and the invocation suspends on the fetch. Building the URL reads
  \<^verbatim>\<open>currentProduct.id\<close>: were there no product, the \<^verbatim>\<open>TypeError\<close> would be caught, the
  \<^verbatim>\<open>finally\<close> block would delete the key again, and the loop would go on.
\<close>

fun runLoop :: "tile list \<Rightarrow> state \<Rightarrow> state" where
  "runLoop [] s = s"
| "runLoop (t # ts) s =
     (if needsFetch s (tile_key t) then
        (case currentProduct s of
           None \<Rightarrow> runLoop ts s
         | Some p \<Rightarrow>
             s\<lparr> loadingTiles := insert (tile_key t) (loadingTiles s),
                suspended := suspended s @ [\<lparr> f_tile = t, f_product = pid p, f_rest = ts \<rparr>] \<rparr>)
      else runLoop ts s)"

definition loadVisibleTiles :: "state \<Rightarrow> state" where
  "loadVisibleTiles s =
     (case currentProduct s of None \<Rightarrow> s | Some _ \<Rightarrow> runLoop (getVisibleTiles s) s)"

text \<open>
  How a fetch ends: the response is ok and the image decodes; the response is not ok
  (for instance 404); or \<^verbatim>\<open>fetch\<close>, \<^verbatim>\<open>response.blob()\<close> or the image decoding rejects.
\<close>

datatype outcome = Loaded image | NotOk | Rejected

text \<open>
  The rest of the loop body after the fetch: \<^verbatim>\<open>tileImages.set(key, img)\<close> on success, nothing
  but a log line otherwise, and \<^verbatim>\<open>loadingTiles.delete(key)\<close> in the \<^verbatim>\<open>finally\<close> block.
\<close>

definition settle :: "tile \<Rightarrow> outcome \<Rightarrow> state \<Rightarrow> state" where
  "settle t oc s =
     (let key = tile_key t;
          s1 = (case oc of
                  Loaded img \<Rightarrow> s\<lparr> tileImages := (tileImages s)(key \<mapsto> img) \<rparr>
                | NotOk \<Rightarrow> s
                | Rejected \<Rightarrow> s)
      in s1\<lparr> loadingTiles := loadingTiles s1 - {key} \<rparr>)"

text \<open>
  The continuation of the \<open>i\<close>-th suspended invocation: it settles its fetch and runs the
  loop on to the next fetch. An index with no suspended invocation is no event.
\<close>

definition fetchDone :: "nat \<Rightarrow> outcome \<Rightarrow> state \<Rightarrow> state" where
  "fetchDone i oc s =
     (if i < length (suspended s) then
        (let f = suspended s ! i;
             s1 = s\<lparr> suspended := take i (suspended s) @ drop (Suc i) (suspended s) \<rparr>
         in runLoop (f_rest f) (settle (f_tile f) oc s1))
      else s)"

subsection \<open>Viewport controller\<close>

definition clearTileCache :: "state \<Rightarrow> state" where
  "clearTileCache s = s\<lparr> tileImages := Map.empty, loadingTiles := {} \<rparr>"

definition resetView :: "state \<Rightarrow> state" where
  "resetView s =
     s\<lparr> zoom := 1,
        pan := (of_nat (canvas_width s) / 2 - TILE_SIZE / 2,
                of_nat (canvas_height s) / 2 - TILE_SIZE / 2) \<rparr>"

definition setZoom :: "int \<Rightarrow> state \<Rightarrow> state" where
  "setZoom newZoom s =
     (case currentProduct s of
        None \<Rightarrow> s
      | Some p \<Rightarrow>
          (let oldZoom = zoom s;
               z = max 0 (min (max_zoom p) newZoom)
           in if z \<noteq> oldZoom then
                (let centerX = of_nat (canvas_width s) / 2;
                     centerY = of_nat (canvas_height s) / 2;
                     scale = 2 powi (z - oldZoom)
                 in loadVisibleTiles (clearTileCache
                      (s\<lparr> zoom := z,
                          pan := (centerX - (centerX - fst (pan s)) * scale,
                                  centerY - (centerY - snd (pan s)) * scale) \<rparr>)))
              else s\<lparr> zoom := z \<rparr>))"

definition handleMouseDown :: "rat \<Rightarrow> rat \<Rightarrow> state \<Rightarrow> state" where
  "handleMouseDown clientX clientY s =
     s\<lparr> isDragging := True,
        dragStart := (clientX - fst (pan s), clientY - snd (pan s)) \<rparr>"

definition handleMouseMove :: "rat \<Rightarrow> rat \<Rightarrow> state \<Rightarrow> state" where
  "handleMouseMove clientX clientY s =
     (if \<not> isDragging s then s
      else loadVisibleTiles
             (s\<lparr> pan := (clientX - fst (dragStart s), clientY - snd (dragStart s)) \<rparr>))"

definition handleMouseUp :: "state \<Rightarrow> state" where
  "handleMouseUp s = s\<lparr> isDragging := False \<rparr>"

definition handleWheel :: "rat \<Rightarrow> state \<Rightarrow> state" where
  "handleWheel deltaY s = setZoom (zoom s + (if deltaY > 0 then - 1 else 1)) s"

definition handleProductChange :: "product \<Rightarrow> state \<Rightarrow> state" where
  "handleProductChange p s =
     loadVisibleTiles (clearTileCache (resetView (s\<lparr> currentProduct := Some p \<rparr>)))"

definition resizeCanvas :: "nat \<Rightarrow> nat \<Rightarrow> state \<Rightarrow> state" where
  "resizeCanvas w h s =
     (let s1 = s\<lparr> canvas_width := w, canvas_height := h \<rparr>
      in case currentProduct s1 of None \<Rightarrow> s1 | Some _ \<Rightarrow> loadVisibleTiles s1)"

text \<open>The continuation of \<^verbatim>\<open>loadProducts\<close> once the product list has arrived.\<close>

definition loadProducts :: "product list \<Rightarrow> state \<Rightarrow> state" where
  "loadProducts ps s =
     (case ps of [] \<Rightarrow> s | p # _ \<Rightarrow> resetView (s\<lparr> currentProduct := Some p \<rparr>))"

subsection \<open>Events\<close>

text \<open>
  Everything that can run a piece of the viewer's code. The touch handlers call the mouse
  handlers with the first touch point, and \<^verbatim>\<open>mouseleave\<close> is bound to \<^verbatim>\<open>handleMouseUp\<close>, so
  they are the mouse events. The zoom buttons call \<^verbatim>\<open>setZoom(zoom + 1)\<close> and
  \<^verbatim>\<open>setZoom(zoom - 1)\<close>.
\<close>

datatype event =
    MouseDown rat rat
  | MouseMove rat rat
  | MouseUp
  | Wheel rat
  | ZoomIn
  | ZoomOut
  | ResetClick
  | ProductChange product
  | Resize nat nat
  | ProductsLoaded "product list"
  | FetchDone nat outcome

fun step :: "event \<Rightarrow> state \<Rightarrow> state" where
  "step (MouseDown cx cy) s = handleMouseDown cx cy s"
| "step (MouseMove cx cy) s = handleMouseMove cx cy s"
| "step MouseUp s = handleMouseUp s"
| "step (Wheel dy) s = handleWheel dy s"
| "step ZoomIn s = setZoom (zoom s + 1) s"
| "step ZoomOut s = setZoom (zoom s - 1) s"
| "step ResetClick s = resetView s"
| "step (ProductChange p) s = handleProductChange p s"
| "step (Resize w h) s = resizeCanvas w h s"
| "step (ProductsLoaded ps) s = loadProducts ps s"
| "step (FetchDone i oc) s = fetchDone i oc s"

fun run :: "event list \<Rightarrow> state \<Rightarrow> state" where
  "run [] s = s"
| "run (e # es) s = run es (step e s)"

subsection \<open>Notions used by the properties\<close>

text \<open>The key under which a suspended invocation's fetch will be stored, and the
  outstanding fetches of a state as (product id, key) pairs, oldest first.\<close>

definition fetch_key :: "fetch \<Rightarrow> string" where
  "fetch_key f = tile_key (f_tile f)"

definition fetch_id :: "fetch \<Rightarrow> string \<times> string" where
  "fetch_id f = (f_product f, fetch_key f)"

definition outstanding :: "state \<Rightarrow> (string \<times> string) list" where
  "outstanding s = map fetch_id (suspended s)"

text \<open>No key is both cached and marked as loading.\<close>

definition cache_inflight_disjoint :: "state \<Rightarrow> bool" where
  "cache_inflight_disjoint s \<longleftrightarrow> dom (tileImages s) \<inter> loadingTiles s = {}"

text \<open>The keys marked as loading are exactly the keys of the outstanding fetches, and no
  two outstanding fetches have the same key.\<close>

definition inflight_exact :: "state \<Rightarrow> bool" where
  "inflight_exact s \<longleftrightarrow>
     distinct (map fetch_key (suspended s)) \<and>
     set (map fetch_key (suspended s)) = loadingTiles s"

text \<open>Whether \<^verbatim>\<open>setZoom\<close> with this argument changes the zoom level.\<close>

definition changesZoom :: "int \<Rightarrow> state \<Rightarrow> bool" where
  "changesZoom newZoom s =
     (case currentProduct s of
        None \<Rightarrow> False
      | Some p \<Rightarrow> max 0 (min (max_zoom p) newZoom) \<noteq> zoom s)"

text \<open>The events that reach \<^verbatim>\<open>clearTileCache\<close>: a product change, and a zoom request that
  changes the zoom level.\<close>

fun invalidates :: "event \<Rightarrow> state \<Rightarrow> bool" where
  "invalidates (ProductChange p) s = True"
| "invalidates ZoomIn s = changesZoom (zoom s + 1) s"
| "invalidates ZoomOut s = changesZoom (zoom s - 1) s"
| "invalidates (Wheel dy) s = changesZoom (zoom s + (if dy > 0 then - 1 else 1)) s"
| "invalidates (MouseDown cx cy) s = False"
| "invalidates (MouseMove cx cy) s = False"
| "invalidates MouseUp s = False"
| "invalidates ResetClick s = False"
| "invalidates (Resize w h) s = False"
| "invalidates (ProductsLoaded ps) s = False"
| "invalidates (FetchDone i oc) s = False"

text \<open>A sequence of events none of which invalidates the cache when it happens.\<close>

fun quiet :: "event list \<Rightarrow> state \<Rightarrow> bool" where
  "quiet [] s = True"
| "quiet (e # es) s = (\<not> invalidates e s \<and> quiet es (step e s))"

text \<open>The tiles of a suspended pass, the one being fetched and those still to visit, have
  different keys; and this holds of every suspended pass of a state whose zoom is not
  negative.\<close>

definition pass_ok :: "fetch \<Rightarrow> bool" where
  "pass_ok f \<longleftrightarrow> distinct (map tile_key (f_tile f # f_rest f))"

definition passes_ok :: "state \<Rightarrow> bool" where
  "passes_ok s \<longleftrightarrow> 0 \<le> zoom s \<and> list_all pass_ok (suspended s)"

text \<open>Concrete inputs for the examples: two products with zoom levels 0 to 3, and a state
  with the first one selected at a given canvas size, zoom and pan.\<close>

definition moon :: product where
  "moon = \<lparr> pid = ''moon'', max_zoom = 3 \<rparr>"

definition mars :: product where
  "mars = \<lparr> pid = ''mars'', max_zoom = 3 \<rparr>"

definition grid_state :: "nat \<Rightarrow> nat \<Rightarrow> int \<Rightarrow> rat \<times> rat \<Rightarrow> state" where
  "grid_state w h z p = (init w h)\<lparr> currentProduct := Some moon, zoom := z, pan := p \<rparr>"

text \<open>The state reached from a 1024 by 768 canvas once the product list has arrived, a
  drag has started a pass, and the first tile of that pass has been loaded.\<close>

definition loaded_state :: state where
  "loaded_state =
     run [ProductsLoaded [moon], MouseDown 0 0, MouseMove 0 0, FetchDone 0 (Loaded 7)]
       (init 1024 768)"

section \<open>Properties\<close>

subsection \<open>What a pass leaves alone\<close>

lemma runLoop_frame [simp]:
  "currentProduct (runLoop ts s) = currentProduct s"
  "zoom (runLoop ts s) = zoom s"
  "pan (runLoop ts s) = pan s"
  "isDragging (runLoop ts s) = isDragging s"
  "dragStart (runLoop ts s) = dragStart s"
  "tileImages (runLoop ts s) = tileImages s"
  "canvas_width (runLoop ts s) = canvas_width s"
  "canvas_height (runLoop ts s) = canvas_height s"
  by (induction ts; simp split: option.split)+

lemma loadVisibleTiles_frame [simp]:
  "currentProduct (loadVisibleTiles s) = currentProduct s"
  "zoom (loadVisibleTiles s) = zoom s"
  "pan (loadVisibleTiles s) = pan s"
  "isDragging (loadVisibleTiles s) = isDragging s"
  "dragStart (loadVisibleTiles s) = dragStart s"
  "tileImages (loadVisibleTiles s) = tileImages s"
  "canvas_width (loadVisibleTiles s) = canvas_width s"
  "canvas_height (loadVisibleTiles s) = canvas_height s"
  by (simp_all add: loadVisibleTiles_def split: option.split)

lemma runLoop_loadingTiles_mono: "loadingTiles s \<subseteq> loadingTiles (runLoop ts s)"
  by (induction ts) (auto split: option.split)

lemma loadVisibleTiles_loadingTiles_mono: "loadingTiles s \<subseteq> loadingTiles (loadVisibleTiles s)"
  using runLoop_loadingTiles_mono by (simp add: loadVisibleTiles_def split: option.split)

lemma runLoop_disjoint:
  "cache_inflight_disjoint s \<Longrightarrow> cache_inflight_disjoint (runLoop ts s)"
  by (induction ts) (auto simp: cache_inflight_disjoint_def needsFetch_def split: option.split)

lemma loadVisibleTiles_disjoint:
  "cache_inflight_disjoint s \<Longrightarrow> cache_inflight_disjoint (loadVisibleTiles s)"
  by (simp add: loadVisibleTiles_def runLoop_disjoint split: option.split)

lemma settle_disjoint:
  "cache_inflight_disjoint s \<Longrightarrow> cache_inflight_disjoint (settle t oc s)"
  by (cases oc) (auto simp: cache_inflight_disjoint_def settle_def Let_def)

lemma clearTileCache_disjoint: "cache_inflight_disjoint (clearTileCache s)"
  by (simp add: cache_inflight_disjoint_def clearTileCache_def)

lemma disjoint_cong:
  "tileImages s' = tileImages s \<Longrightarrow> loadingTiles s' = loadingTiles s \<Longrightarrow>
   cache_inflight_disjoint s \<Longrightarrow> cache_inflight_disjoint s'"
  by (simp add: cache_inflight_disjoint_def)

lemma step_disjoint:
  "cache_inflight_disjoint s \<Longrightarrow> cache_inflight_disjoint (step e s)"
proof (cases e)
  case (FetchDone i oc)
  assume d: "cache_inflight_disjoint s"
  show ?thesis
  proof (cases "i < length (suspended s)")
    case True
    let ?s1 = "s\<lparr> suspended := take i (suspended s) @ drop (Suc i) (suspended s) \<rparr>"
    have "cache_inflight_disjoint ?s1" using d by (simp add: cache_inflight_disjoint_def)
    then show ?thesis using True FetchDone
      by (simp add: fetchDone_def Let_def runLoop_disjoint settle_disjoint)
  next
    case False
    then show ?thesis using d FetchDone by (simp add: fetchDone_def)
  qed
next
  case (ProductChange p)
  then show ?thesis
    by (simp add: handleProductChange_def loadVisibleTiles_disjoint clearTileCache_disjoint)
qed (auto simp: handleMouseDown_def handleMouseMove_def handleMouseUp_def handleWheel_def
      setZoom_def resetView_def resizeCanvas_def loadProducts_def Let_def
      intro!: loadVisibleTiles_disjoint clearTileCache_disjoint
      elim: disjoint_cong[rotated 2]
      split: option.split list.split)

lemma run_disjoint:
  "cache_inflight_disjoint s \<Longrightarrow> cache_inflight_disjoint (run es s)"
  by (induction es arbitrary: s) (simp_all add: step_disjoint)

subsection \<open>The visible tiles\<close>

lemmas grid_defs = getVisibleTiles_def startCol_def endCol_def startRow_def endRow_def
  tileScale_def tilesInView_def TILE_SIZE_def

lemma tilesInView_nonneg_zoom: "0 \<le> zoom s \<Longrightarrow> tilesInView s = of_int (2 ^ nat (zoom s))"
  by (simp add: tilesInView_def power_int_def)

lemma tileScale_pos: "0 < tileScale s"
  by (simp add: tileScale_def TILE_SIZE_def power_int_def)

lemma floor_end_le:
  assumes "0 \<le> zoom s"
  shows "\<lfloor>min (tilesInView s - 1) e\<rfloor> \<le> 2 ^ nat (zoom s) - 1"
proof -
  have "min (tilesInView s - 1) e \<le> of_int (2 ^ nat (zoom s) - 1)"
    using assms by (simp add: tilesInView_nonneg_zoom)
  then have "\<lfloor>min (tilesInView s - 1) e\<rfloor> \<le> \<lfloor>(of_int (2 ^ nat (zoom s) - 1))::rat\<rfloor>"
    by (rule floor_mono)
  then show ?thesis by simp
qed

lemma endCol_bound: "0 \<le> zoom s \<Longrightarrow> \<lfloor>endCol s\<rfloor> \<le> 2 ^ nat (zoom s) - 1"
  unfolding endCol_def by (rule floor_end_le)

lemma endRow_bound: "0 \<le> zoom s \<Longrightarrow> \<lfloor>endRow s\<rfloor> \<le> 2 ^ nat (zoom s) - 1"
  unfolding endRow_def by (rule floor_end_le)

lemma startCol_nonneg: "0 \<le> startCol s"
  by (simp add: startCol_def)

lemma startRow_nonneg: "0 \<le> startRow s"
  by (simp add: startRow_def)

lemma visible_tile_cases:
  assumes "t \<in> set (getVisibleTiles s)"
  shows "startRow s \<le> row t \<and> row t \<le> \<lfloor>endRow s\<rfloor> \<and>
         startCol s \<le> col t \<and> col t \<le> \<lfloor>endCol s\<rfloor> \<and> tzoom t = zoom s"
  using assms by (auto simp: getVisibleTiles_def split: option.splits)

lemma no_cols_no_tiles: "\<lfloor>endCol s\<rfloor> < startCol s \<Longrightarrow> getVisibleTiles s = []"
  by (simp add: getVisibleTiles_def split: option.split)

lemma no_rows_no_tiles: "\<lfloor>endRow s\<rfloor> < startRow s \<Longrightarrow> getVisibleTiles s = []"
  by (simp add: getVisibleTiles_def split: option.split)

lemma start_beyond_grid:
  assumes z: "0 \<le> zoom s" and off: "p \<le> - (tileScale s * tilesInView s)"
  shows "2 ^ nat (zoom s) \<le> max 0 \<lfloor>- p / tileScale s\<rfloor>"
proof -
  have "tilesInView s * tileScale s \<le> - p"
    using off by (simp add: mult.commute)
  then have "tilesInView s \<le> (- p) / tileScale s"
    using tileScale_pos[of s] by (simp only: pos_le_divide_eq)
  then have "of_int (2 ^ nat (zoom s)) \<le> (- p) / tileScale s"
    using z by (simp only: tilesInView_nonneg_zoom)
  then have "2 ^ nat (zoom s) \<le> \<lfloor>(- p) / tileScale s\<rfloor>"
    by (simp only: le_floor_iff)
  then show ?thesis by (simp only: max.coboundedI2)
qed

lemma end_before_grid:
  assumes off: "w + tileScale s \<le> p"
  shows "\<lfloor>min (tilesInView s - 1) (of_int \<lceil>(w - p) / tileScale s\<rceil>)\<rfloor> < 0"
proof -
  have "(w - p) / tileScale s \<le> - 1"
    using off tileScale_pos[of s] by (simp add: pos_divide_le_eq)
  then have "\<lceil>(w - p) / tileScale s\<rceil> \<le> - 1"
    by (simp add: ceiling_le_iff)
  then have "(of_int \<lceil>(w - p) / tileScale s\<rceil> :: rat) \<le> of_int (- 1)"
    by (simp only: of_int_le_iff)
  then have "min (tilesInView s - 1) (of_int \<lceil>(w - p) / tileScale s\<rceil>) \<le> (of_int (- 1) :: rat)"
    by (rule min.coboundedI2)
  then have "\<lfloor>min (tilesInView s - 1) (of_int \<lceil>(w - p) / tileScale s\<rceil>)\<rfloor>
      \<le> \<lfloor>of_int (- 1) :: rat\<rfloor>"
    by (rule floor_mono)
  then have "\<lfloor>min (tilesInView s - 1) (of_int \<lceil>(w - p) / tileScale s\<rceil>)\<rfloor> \<le> - 1"
    by (simp only: floor_of_int)
  then show ?thesis by linarith
qed

text \<open>
  C3 (as amended). For every state with \<open>zoom \<ge> 0\<close>, every tile returned by
  \<^verbatim>\<open>getVisibleTiles\<close> has \<open>0 \<le> row < 2^zoom\<close> and \<open>0 \<le> col < 2^zoom\<close> and carries the
  current zoom. The result is empty when the grid lies wholly to the left of or above the
  canvas origin (\<open>pan \<le> - (tileScale * 2^zoom)\<close> on an axis), or starts at least one tile
  extent beyond the right or bottom edge (\<open>pan \<ge> canvas size + tileScale\<close> on an axis).
\<close>

theorem visible_tiles_in_grid:
  assumes z: "0 \<le> zoom s"
  shows "(\<forall>t \<in> set (getVisibleTiles s).
            0 \<le> row t \<and> row t < 2 ^ nat (zoom s) \<and>
            0 \<le> col t \<and> col t < 2 ^ nat (zoom s) \<and> tzoom t = zoom s)
       \<and> (fst (pan s) \<le> - (tileScale s * tilesInView s)
            \<or> of_nat (canvas_width s) + tileScale s \<le> fst (pan s)
            \<or> snd (pan s) \<le> - (tileScale s * tilesInView s)
            \<or> of_nat (canvas_height s) + tileScale s \<le> snd (pan s)
          \<longrightarrow> getVisibleTiles s = [])"
proof (rule conjI)
  show "\<forall>t \<in> set (getVisibleTiles s).
            0 \<le> row t \<and> row t < 2 ^ nat (zoom s) \<and>
            0 \<le> col t \<and> col t < 2 ^ nat (zoom s) \<and> tzoom t = zoom s"
  proof (rule ballI)
    fix t assume "t \<in> set (getVisibleTiles s)"
    from visible_tile_cases[OF this] endRow_bound[OF z] endCol_bound[OF z]
      startRow_nonneg[of s] startCol_nonneg[of s]
    show "0 \<le> row t \<and> row t < 2 ^ nat (zoom s) \<and>
          0 \<le> col t \<and> col t < 2 ^ nat (zoom s) \<and> tzoom t = zoom s"
      by linarith
  qed
next
  show "fst (pan s) \<le> - (tileScale s * tilesInView s)
            \<or> of_nat (canvas_width s) + tileScale s \<le> fst (pan s)
            \<or> snd (pan s) \<le> - (tileScale s * tilesInView s)
            \<or> of_nat (canvas_height s) + tileScale s \<le> snd (pan s)
          \<longrightarrow> getVisibleTiles s = []"
  proof (rule impI)
  assume off: "fst (pan s) \<le> - (tileScale s * tilesInView s)
            \<or> of_nat (canvas_width s) + tileScale s \<le> fst (pan s)
            \<or> snd (pan s) \<le> - (tileScale s * tilesInView s)
            \<or> of_nat (canvas_height s) + tileScale s \<le> snd (pan s)"
  then consider
      (left) "fst (pan s) \<le> - (tileScale s * tilesInView s)"
    | (right) "of_nat (canvas_width s) + tileScale s \<le> fst (pan s)"
    | (above) "snd (pan s) \<le> - (tileScale s * tilesInView s)"
    | (below) "of_nat (canvas_height s) + tileScale s \<le> snd (pan s)"
    by blast
  then show "getVisibleTiles s = []"
  proof cases
    case left
    from start_beyond_grid[OF z this] have "2 ^ nat (zoom s) \<le> startCol s"
      unfolding startCol_def .
    with endCol_bound[OF z] have "\<lfloor>endCol s\<rfloor> < startCol s" by linarith
    then show ?thesis by (rule no_cols_no_tiles)
  next
    case right
    from end_before_grid[OF this] have "\<lfloor>endCol s\<rfloor> < 0"
      unfolding endCol_def .
    with startCol_nonneg[of s] have "\<lfloor>endCol s\<rfloor> < startCol s" by linarith
    then show ?thesis by (rule no_cols_no_tiles)
  next
    case above
    from start_beyond_grid[OF z this] have "2 ^ nat (zoom s) \<le> startRow s"
      unfolding startRow_def .
    with endRow_bound[OF z] have "\<lfloor>endRow s\<rfloor> < startRow s" by linarith
    then show ?thesis by (rule no_rows_no_tiles)
  next
    case below
    from end_before_grid[OF this] have "\<lfloor>endRow s\<rfloor> < 0"
      unfolding endRow_def .
    with startRow_nonneg[of s] have "\<lfloor>endRow s\<rfloor> < startRow s" by linarith
    then show ?thesis by (rule no_rows_no_tiles)
  qed
  qed
qed

text \<open>
  As the claim has it, an empty viewport and a grid wholly off the viewport give no tiles.
  With a canvas of 0 by 0 pixels and the grid origin at the canvas origin, tile (0,0) is
  returned; with a canvas of 1024 by 768 and the grid starting 76 pixels right of the
  right edge, the first column is returned: the end index is a ceiling, so it is 0 while
  the grid starts less than one tile extent beyond the edge.
\<close>

theorem visible_tiles_counterexample:
  "getVisibleTiles (grid_state 0 0 1 (0, 0)) = [Tile 0 0 1] \<and>
   getVisibleTiles (grid_state 1024 768 1 (1100, 0)) = [Tile 0 0 1, Tile 1 0 1]"
  by (simp add: grid_state_def init_def grid_defs upto.simps)

theorem visible_tiles_in_grid_witness:
  "0 \<le> zoom (grid_state 1024 768 1 (0, 0)) \<and>
   Tile 1 1 1 \<in> set (getVisibleTiles (grid_state 1024 768 1 (0, 0))) \<and>
   row (Tile 1 1 1) < 2 ^ nat (zoom (grid_state 1024 768 1 (0, 0))) \<and>
   0 \<le> zoom (grid_state 1024 768 1 (1536, 0)) \<and>
   of_nat (canvas_width (grid_state 1024 768 1 (1536, 0))) + tileScale (grid_state 1024 768 1 (1536, 0))
     \<le> fst (pan (grid_state 1024 768 1 (1536, 0))) \<and>
   getVisibleTiles (grid_state 1024 768 1 (1536, 0)) = []"
proof -
  have z1: "0 \<le> zoom (grid_state 1024 768 1 (0, 0))"
    and z2: "0 \<le> zoom (grid_state 1024 768 1 (1536, 0))"
    by (simp_all add: grid_state_def init_def)
  have m: "Tile 1 1 1 \<in> set (getVisibleTiles (grid_state 1024 768 1 (0, 0)))"
    by (simp add: grid_state_def init_def grid_defs upto.simps)
  have off: "of_nat (canvas_width (grid_state 1024 768 1 (1536, 0))) + tileScale (grid_state 1024 768 1 (1536, 0))
     \<le> fst (pan (grid_state 1024 768 1 (1536, 0)))"
    by (simp add: grid_state_def init_def tileScale_def TILE_SIZE_def)
  from visible_tiles_in_grid[OF z1] m
  have "row (Tile 1 1 1) < 2 ^ nat (zoom (grid_state 1024 768 1 (0, 0)))" by blast
  moreover from visible_tiles_in_grid[OF z2] off
  have "getVisibleTiles (grid_state 1024 768 1 (1536, 0)) = []" by blast
  ultimately show ?thesis using z1 z2 m off by blast
qed

subsection \<open>Cache and in-flight set\<close>

text \<open>
  C7. In every state reachable from the initial one by any sequence of events, no key is
  both in \<^verbatim>\<open>tileImages\<close> and in \<^verbatim>\<open>loadingTiles\<close>.
\<close>

theorem no_key_cached_and_in_flight:
  "dom (tileImages (run es (init w h))) \<inter> loadingTiles (run es (init w h)) = {}"
proof -
  have "cache_inflight_disjoint (init w h)"
    by (simp add: cache_inflight_disjoint_def init_def)
  then have "cache_inflight_disjoint (run es (init w h))"
    by (rule run_disjoint)
  then show ?thesis
    by (simp add: cache_inflight_disjoint_def)
qed

subsection \<open>Evaluating concrete runs\<close>

lemmas handler_defs = handleMouseDown_def handleMouseMove_def handleMouseUp_def handleWheel_def
  setZoom_def resetView_def resizeCanvas_def loadProducts_def handleProductChange_def
  clearTileCache_def loadVisibleTiles_def fetchDone_def settle_def

lemma digits_small: "n < 10 \<Longrightarrow> digits n = [digit n]"
  by (simp add: digits.simps)

lemmas key_defs = tile_key_def show_int_def digits_small digit_def

lemma floor_fraction [simp]:
  "\<lfloor>numeral a / numeral b :: rat\<rfloor> = numeral a div numeral b"
  "\<lfloor>- (numeral a / numeral b) :: rat\<rfloor> = - numeral a div numeral b"
  "\<lfloor>1 / numeral b :: rat\<rfloor> = 1 div numeral b"
  "\<lfloor>- (1 / numeral b) :: rat\<rfloor> = - 1 div numeral b"
  using floor_divide_of_int_eq[of "numeral a" "numeral b", where ?'a = rat]
    floor_divide_of_int_eq[of "- numeral a" "numeral b", where ?'a = rat]
    floor_divide_of_int_eq[of 1 "numeral b", where ?'a = rat]
    floor_divide_of_int_eq[of "- 1" "numeral b", where ?'a = rat]
  by simp_all

lemma ceiling_fraction [simp]:
  "\<lceil>numeral a / numeral b :: rat\<rceil> = - (- numeral a div numeral b)"
  "\<lceil>- (numeral a / numeral b) :: rat\<rceil> = - (numeral a div numeral b)"
  "\<lceil>1 / numeral b :: rat\<rceil> = - (- 1 div numeral b)"
  "\<lceil>- (1 / numeral b) :: rat\<rceil> = - (1 div numeral b)"
  unfolding ceiling_def by simp_all

lemmas trace_defs = handler_defs grid_defs key_defs needsFetch_def init_def moon_def
  upto.simps Let_def

subsection \<open>Outstanding fetches\<close>

lemma exact_cong:
  "suspended s' = suspended s \<Longrightarrow> loadingTiles s' = loadingTiles s \<Longrightarrow>
   inflight_exact s \<Longrightarrow> inflight_exact s'"
  by (simp add: inflight_exact_def)

lemma runLoop_exact: "inflight_exact s \<Longrightarrow> inflight_exact (runLoop ts s)"
  by (induction ts) (auto simp: inflight_exact_def needsFetch_def fetch_key_def split: option.split)

lemma loadVisibleTiles_exact: "inflight_exact s \<Longrightarrow> inflight_exact (loadVisibleTiles s)"
  by (simp add: loadVisibleTiles_def runLoop_exact split: option.split)

lemma distinct_remove_nth:
  assumes "distinct ys" and "i < length ys"
  shows "distinct (take i ys @ drop (Suc i) ys) \<and>
         set (take i ys @ drop (Suc i) ys) = set ys - {ys ! i}"
proof -
  have ys: "ys = take i ys @ ys ! i # drop (Suc i) ys"
    using assms(2) by (rule id_take_nth_drop)
  have "distinct (take i ys @ ys ! i # drop (Suc i) ys)"
    using assms(1) ys by simp
  then have d: "distinct (take i ys @ drop (Suc i) ys)"
    and n: "ys ! i \<notin> set (take i ys @ drop (Suc i) ys)"
    by auto
  have "set ys = insert (ys ! i) (set (take i ys @ drop (Suc i) ys))"
    by (subst ys) simp
  with n d show ?thesis by auto
qed

lemma settle_exact:
  assumes "inflight_exact s" and "i < length (suspended s)"
  shows "inflight_exact
     (settle (f_tile (suspended s ! i)) oc
        (s\<lparr> suspended := take i (suspended s) @ drop (Suc i) (suspended s) \<rparr>))"
proof -
  let ?ks = "map fetch_key (suspended s)"
  have d: "distinct ?ks" and l: "set ?ks = loadingTiles s"
    using assms(1) by (simp_all add: inflight_exact_def)
  have i: "i < length ?ks" using assms(2) by simp
  have k: "?ks ! i = tile_key (f_tile (suspended s ! i))"
    using assms(2) by (simp add: fetch_key_def)
  have m: "map fetch_key (take i (suspended s) @ drop (Suc i) (suspended s))
           = take i ?ks @ drop (Suc i) ?ks"
    by (simp add: take_map drop_map)
  from distinct_remove_nth[OF d i] m k l show ?thesis
    by (cases oc) (simp_all add: inflight_exact_def settle_def Let_def)
qed

lemma step_exact:
  assumes ex: "inflight_exact s" and q: "\<not> invalidates e s"
  shows "inflight_exact (step e s)"
proof (cases e)
  case (FetchDone i oc)
  then show ?thesis using ex settle_exact[OF ex, of i oc]
    by (simp add: fetchDone_def Let_def runLoop_exact)
next
  case (ProductChange p)
  then show ?thesis using q by simp
next
  case (MouseMove cx cy)
  then show ?thesis using ex
    by (auto simp: handleMouseMove_def intro!: loadVisibleTiles_exact elim: exact_cong[rotated 2])
next
  case (Resize w h)
  then show ?thesis using ex
    by (auto simp: resizeCanvas_def Let_def intro!: loadVisibleTiles_exact
        elim: exact_cong[rotated 2] split: option.split)
next
  case ZoomIn
  then show ?thesis using ex q
    by (auto simp: setZoom_def changesZoom_def Let_def elim: exact_cong[rotated 2] split: option.splits)
next
  case ZoomOut
  then show ?thesis using ex q
    by (auto simp: setZoom_def changesZoom_def Let_def elim: exact_cong[rotated 2] split: option.splits)
next
  case (Wheel dy)
  then show ?thesis using ex q
    by (auto simp: handleWheel_def setZoom_def changesZoom_def Let_def
        elim: exact_cong[rotated 2] split: option.splits if_splits)
qed (use ex in \<open>auto simp: handleMouseDown_def handleMouseUp_def resetView_def loadProducts_def
      elim: exact_cong[rotated 2] split: list.split\<close>)

text \<open>
  C1 (as amended). From any state in which the keys marked as loading are exactly the
  keys of the outstanding fetches, one fetch each (the initial state is one), every
  sequence of events that does not reach \<^verbatim>\<open>clearTileCache\<close> (drags, resizes, resets,
  product list loads, fetch completions, zoom requests that leave the zoom unchanged) leads
  to a state with the same property: at most one fetch is outstanding per key, and a pass
  skips every key that is cached or marked as loading.
\<close>

theorem one_fetch_per_key_while_quiet:
  assumes "inflight_exact s" and "quiet es s"
  shows "distinct (map fetch_key (suspended (run es s))) \<and>
         set (map fetch_key (suspended (run es s))) = loadingTiles (run es s) \<and>
         (\<not> needsFetch (run es s) (tile_key t) \<longrightarrow>
            runLoop (t # ts) (run es s) = runLoop ts (run es s))"
proof -
  have "inflight_exact (run es s)"
    using assms by (induction es arbitrary: s) (simp_all add: step_exact)
  then show ?thesis by (simp add: inflight_exact_def)
qed

text \<open>
  Without the restriction the claim fails: \<^verbatim>\<open>clearTileCache\<close> empties \<^verbatim>\<open>loadingTiles\<close> while
  the fetches go on. Zooming in and out again while the fetch of tile (0,0) of zoom 1 is
  pending starts a second fetch for the same product and key.
\<close>

theorem duplicate_fetch_counterexample:
  "outstanding (run [ProductsLoaded [moon], MouseDown 0 0, MouseMove 0 0, ZoomIn, ZoomOut]
       (init 1024 768))
   = [(''moon'', ''1-0-0''), (''moon'', ''2-0-0''), (''moon'', ''1-0-0'')]"
  by (simp add: trace_defs outstanding_def fetch_id_def fetch_key_def)

theorem one_fetch_per_key_while_quiet_witness:
  "inflight_exact (init 1024 768) \<and>
   quiet [ProductsLoaded [moon], MouseDown 0 0, MouseMove 0 0, MouseMove 600 0, FetchDone 0 NotOk]
     (init 1024 768) \<and>
   map fetch_key (suspended (run
     [ProductsLoaded [moon], MouseDown 0 0, MouseMove 0 0, MouseMove 600 0, FetchDone 0 NotOk]
     (init 1024 768))) = [''1-0-1'', ''1-1-0''] \<and>
   distinct (map fetch_key (suspended (run
     [ProductsLoaded [moon], MouseDown 0 0, MouseMove 0 0, MouseMove 600 0, FetchDone 0 NotOk]
     (init 1024 768)))) \<and>
   \<not> needsFetch (run
     [ProductsLoaded [moon], MouseDown 0 0, MouseMove 0 0, MouseMove 600 0, FetchDone 0 NotOk]
     (init 1024 768)) (tile_key (Tile 0 1 1)) \<and>
   runLoop [Tile 0 1 1] (run
     [ProductsLoaded [moon], MouseDown 0 0, MouseMove 0 0, MouseMove 600 0, FetchDone 0 NotOk]
     (init 1024 768))
   = run [ProductsLoaded [moon], MouseDown 0 0, MouseMove 0 0, MouseMove 600 0, FetchDone 0 NotOk]
     (init 1024 768)"
proof -
  have h1: "inflight_exact (init 1024 768)"
    by (simp add: inflight_exact_def init_def)
  have h2: "quiet [ProductsLoaded [moon], MouseDown 0 0, MouseMove 0 0, MouseMove 600 0,
      FetchDone 0 NotOk] (init 1024 768)"
    by simp
  have h3: "map fetch_key (suspended (run
     [ProductsLoaded [moon], MouseDown 0 0, MouseMove 0 0, MouseMove 600 0, FetchDone 0 NotOk]
     (init 1024 768))) = [''1-0-1'', ''1-1-0'']"
    by (simp add: trace_defs fetch_key_def)
  have h4: "\<not> needsFetch (run
     [ProductsLoaded [moon], MouseDown 0 0, MouseMove 0 0, MouseMove 600 0, FetchDone 0 NotOk]
     (init 1024 768)) (tile_key (Tile 0 1 1))"
    by (simp add: trace_defs)
  from one_fetch_per_key_while_quiet[OF h1 h2, of "Tile 0 1 1" "[]"] h4
  have "distinct (map fetch_key (suspended (run
     [ProductsLoaded [moon], MouseDown 0 0, MouseMove 0 0, MouseMove 600 0, FetchDone 0 NotOk]
     (init 1024 768))))"
    and "runLoop [Tile 0 1 1] (run
     [ProductsLoaded [moon], MouseDown 0 0, MouseMove 0 0, MouseMove 600 0, FetchDone 0 NotOk]
     (init 1024 768))
   = run [ProductsLoaded [moon], MouseDown 0 0, MouseMove 0 0, MouseMove 600 0, FetchDone 0 NotOk]
     (init 1024 768)"
    by simp_all
  with h1 h2 h3 h4 show ?thesis by blast
qed

subsection \<open>Arrival of a fetched tile\<close>

lemma fetchDone_tileImages:
  "i < length (suspended s) \<Longrightarrow>
   tileImages (fetchDone i oc s) =
     (case oc of
        Loaded img \<Rightarrow> (tileImages s)(fetch_key (suspended s ! i) \<mapsto> img)
      | NotOk \<Rightarrow> tileImages s
      | Rejected \<Rightarrow> tileImages s)"
  by (cases oc) (simp_all add: fetchDone_def settle_def Let_def fetch_key_def)

text \<open>
  C2 (as amended). There is no stale-fetch guard: when a fetch ends with a decoded image,
  the image is stored under the key the fetch was started for, whatever the zoom is by
  then, and nothing else in the cache changes.
\<close>

theorem loaded_tile_is_stored_whatever_the_zoom:
  "i < length (suspended s) \<Longrightarrow>
   tileImages (step (FetchDone i (Loaded img)) s)
     = (tileImages s)(fetch_key (suspended s ! i) \<mapsto> img)"
  by (simp add: fetchDone_tileImages)

text \<open>
  A fetch started at zoom 1 that completes after zooming in to 2 leaves its zoom 1 entry
  in the cache just emptied for zoom 2.
\<close>

theorem stale_fetch_counterexample:
  "zoom (run [ProductsLoaded [moon], MouseDown 0 0, MouseMove 0 0, ZoomIn, FetchDone 0 (Loaded 7)]
      (init 1024 768)) = 2 \<and>
   tileImages (run [ProductsLoaded [moon], MouseDown 0 0, MouseMove 0 0, ZoomIn, FetchDone 0 (Loaded 7)]
      (init 1024 768)) (tile_key (Tile 0 0 1)) = Some 7"
  by (simp add: trace_defs)

theorem loaded_tile_is_stored_whatever_the_zoom_witness:
  "0 < length (suspended (run [ProductsLoaded [moon], MouseDown 0 0, MouseMove 0 0, ZoomIn] (init 1024 768))) \<and>
   zoom (run [ProductsLoaded [moon], MouseDown 0 0, MouseMove 0 0, ZoomIn] (init 1024 768)) = 2 \<and>
   tileImages (step (FetchDone 0 (Loaded 7))
      (run [ProductsLoaded [moon], MouseDown 0 0, MouseMove 0 0, ZoomIn] (init 1024 768))) ''1-0-0''
    = Some 7"
proof -
  let ?s = "run [ProductsLoaded [moon], MouseDown 0 0, MouseMove 0 0, ZoomIn] (init 1024 768)"
  have h: "0 < length (suspended ?s)" by (simp add: trace_defs)
  have z: "zoom ?s = 2" by (simp add: trace_defs)
  have k: "fetch_key (suspended ?s ! 0) = ''1-0-0''" by (simp add: trace_defs fetch_key_def)
  from loaded_tile_is_stored_whatever_the_zoom[OF h, of 7] k
  have "tileImages (step (FetchDone 0 (Loaded 7)) ?s) ''1-0-0'' = Some 7" by simp
  with h z show ?thesis by blast
qed

subsection \<open>Zoom\<close>

lemma clearTileCache_frame [simp]:
  "currentProduct (clearTileCache s) = currentProduct s"
  "zoom (clearTileCache s) = zoom s"
  "pan (clearTileCache s) = pan s"
  "isDragging (clearTileCache s) = isDragging s"
  "dragStart (clearTileCache s) = dragStart s"
  "canvas_width (clearTileCache s) = canvas_width s"
  "canvas_height (clearTileCache s) = canvas_height s"
  "suspended (clearTileCache s) = suspended s"
  "tileImages (clearTileCache s) = Map.empty"
  "loadingTiles (clearTileCache s) = {}"
  by (simp_all add: clearTileCache_def)

lemma getVisibleTiles_cong:
  assumes "currentProduct s' = currentProduct s" and "zoom s' = zoom s" and "pan s' = pan s"
    and "canvas_width s' = canvas_width s" and "canvas_height s' = canvas_height s"
  shows "getVisibleTiles s' = getVisibleTiles s"
proof -
  have "tileScale s' = tileScale s" "tilesInView s' = tilesInView s"
    using assms by (simp_all add: tileScale_def tilesInView_def)
  then have "startCol s' = startCol s" "endCol s' = endCol s"
    "startRow s' = startRow s" "endRow s' = endRow s"
    using assms by (simp_all add: startCol_def endCol_def startRow_def endRow_def)
  then show ?thesis
    using assms by (cases "currentProduct s") (simp_all add: getVisibleTiles_def)
qed

lemma getVisibleTiles_runLoop [simp]: "getVisibleTiles (runLoop ts s) = getVisibleTiles s"
  by (rule getVisibleTiles_cong) simp_all

lemma getVisibleTiles_loadVisibleTiles [simp]:
  "getVisibleTiles (loadVisibleTiles s) = getVisibleTiles s"
  by (rule getVisibleTiles_cong) simp_all

lemma getVisibleTiles_clearTileCache [simp]:
  "getVisibleTiles (clearTileCache s) = getVisibleTiles s"
  by (rule getVisibleTiles_cong) simp_all

text \<open>A pass over an empty cache and an empty in-flight set requests its first tile and
  keeps the others for later.\<close>

lemma runLoop_after_clear:
  assumes "currentProduct s = Some p" and "tileImages s = Map.empty" and "loadingTiles s = {}"
  shows "loadingTiles (runLoop ts s) = tile_key ` set (take 1 ts)"
    and "suspended (runLoop ts s) =
           suspended s @ (case ts of [] \<Rightarrow> []
                          | t # rest \<Rightarrow> [\<lparr> f_tile = t, f_product = pid p, f_rest = rest \<rparr>])"
  using assms by (cases ts; simp add: needsFetch_def)+

lemma loadVisibleTiles_after_clear:
  assumes "currentProduct s = Some p"
  shows "tileImages (loadVisibleTiles (clearTileCache s)) = Map.empty"
    and "loadingTiles (loadVisibleTiles (clearTileCache s)) = tile_key ` set (take 1 (getVisibleTiles s))"
    and "suspended (loadVisibleTiles (clearTileCache s)) =
           suspended s @ (case getVisibleTiles s of [] \<Rightarrow> []
                          | t # rest \<Rightarrow> [\<lparr> f_tile = t, f_product = pid p, f_rest = rest \<rparr>])"
proof -
  let ?c = "clearTileCache s"
  have c: "currentProduct ?c = Some p" "tileImages ?c = Map.empty" "loadingTiles ?c = {}"
    "suspended ?c = suspended s"
    using assms by simp_all
  show "tileImages (loadVisibleTiles ?c) = Map.empty" by simp
  show "loadingTiles (loadVisibleTiles ?c) = tile_key ` set (take 1 (getVisibleTiles s))"
    using runLoop_after_clear(1)[OF c(1-3)] c(1) by (simp add: loadVisibleTiles_def)
  show "suspended (loadVisibleTiles ?c) =
           suspended s @ (case getVisibleTiles s of [] \<Rightarrow> []
                          | t # rest \<Rightarrow> [\<lparr> f_tile = t, f_product = pid p, f_rest = rest \<rparr>])"
    using runLoop_after_clear(2)[OF c(1-3)] c(1,4) by (simp add: loadVisibleTiles_def)
qed

text \<open>The state on which an effective \<^verbatim>\<open>setZoom\<close> clears the cache and starts its pass.\<close>

lemma setZoom_effective:
  assumes "currentProduct s = Some p" and "max 0 (min (max_zoom p) newZoom) \<noteq> zoom s"
  shows "setZoom newZoom s =
     loadVisibleTiles (clearTileCache
       (s\<lparr> zoom := max 0 (min (max_zoom p) newZoom),
           pan := (of_nat (canvas_width s) / 2
                     - (of_nat (canvas_width s) / 2 - fst (pan s))
                       * 2 powi (max 0 (min (max_zoom p) newZoom) - zoom s),
                   of_nat (canvas_height s) / 2
                     - (of_nat (canvas_height s) / 2 - snd (pan s))
                       * 2 powi (max 0 (min (max_zoom p) newZoom) - zoom s)) \<rparr>))"
  using assms by (simp add: setZoom_def Let_def)

lemma setZoom_same:
  assumes "currentProduct s = Some p" and "max 0 (min (max_zoom p) newZoom) = zoom s"
  shows "setZoom newZoom s = s"
  using assms by (simp add: setZoom_def Let_def)

lemma setZoom_zoom:
  "currentProduct s = Some p \<Longrightarrow> zoom (setZoom newZoom s) = max 0 (min (max_zoom p) newZoom)"
  by (simp add: setZoom_def Let_def)

lemma setZoom_pan:
  assumes "currentProduct s = Some p" and "max 0 (min (max_zoom p) newZoom) \<noteq> zoom s"
  shows "pan (setZoom newZoom s) =
     (of_nat (canvas_width s) / 2
        - (of_nat (canvas_width s) / 2 - fst (pan s)) * 2 powi (zoom (setZoom newZoom s) - zoom s),
      of_nat (canvas_height s) / 2
        - (of_nat (canvas_height s) / 2 - snd (pan s)) * 2 powi (zoom (setZoom newZoom s) - zoom s))"
  using assms by (simp add: setZoom_def Let_def)

lemma setZoom_canvas [simp]:
  "canvas_width (setZoom newZoom s) = canvas_width s"
  "canvas_height (setZoom newZoom s) = canvas_height s"
  by (simp_all add: setZoom_def Let_def split: option.split)

lemma setZoom_cleared:
  assumes "currentProduct s = Some p" and "max 0 (min (max_zoom p) newZoom) \<noteq> zoom s"
  shows "tileImages (setZoom newZoom s) = Map.empty"
    and "loadingTiles (setZoom newZoom s) = tile_key ` set (take 1 (getVisibleTiles (setZoom newZoom s)))"
    and "suspended (setZoom newZoom s) =
           suspended s @ (case getVisibleTiles (setZoom newZoom s) of [] \<Rightarrow> []
              | t # rest \<Rightarrow> [\<lparr> f_tile = t, f_product = pid p, f_rest = rest \<rparr>])"
proof -
  let ?u = "s\<lparr> zoom := max 0 (min (max_zoom p) newZoom),
           pan := (of_nat (canvas_width s) / 2
                     - (of_nat (canvas_width s) / 2 - fst (pan s))
                       * 2 powi (max 0 (min (max_zoom p) newZoom) - zoom s),
                   of_nat (canvas_height s) / 2
                     - (of_nat (canvas_height s) / 2 - snd (pan s))
                       * 2 powi (max 0 (min (max_zoom p) newZoom) - zoom s)) \<rparr>"
  have e: "setZoom newZoom s = loadVisibleTiles (clearTileCache ?u)"
    using assms by (rule setZoom_effective)
  have u: "currentProduct ?u = Some p" using assms(1) by simp
  have v: "getVisibleTiles (setZoom newZoom s) = getVisibleTiles ?u"
    by (simp add: e)
  show "tileImages (setZoom newZoom s) = Map.empty"
    unfolding e by (rule loadVisibleTiles_after_clear(1)[OF u])
  show "loadingTiles (setZoom newZoom s) = tile_key ` set (take 1 (getVisibleTiles (setZoom newZoom s)))"
    unfolding v unfolding e by (rule loadVisibleTiles_after_clear(2)[OF u])
  show "suspended (setZoom newZoom s) =
           suspended s @ (case getVisibleTiles (setZoom newZoom s) of [] \<Rightarrow> []
              | t # rest \<Rightarrow> [\<lparr> f_tile = t, f_product = pid p, f_rest = rest \<rparr>])"
    unfolding v unfolding e using loadVisibleTiles_after_clear(3)[OF u] by simp
qed

text \<open>
  C4. An effective zoom change (a \<^verbatim>\<open>setZoom\<close> whose clamped target differs from the current
  zoom) sets, per axis, \<open>pan' = center - (center - pan) * 2^(newZoom - oldZoom)\<close> with the
  center at half the canvas size. The point of the tile grid under the center before the
  change, at the fractional tile index \<open>(center - pan) / tileScale\<close>, is drawn at the center
  after it: the render loop draws index \<open>i\<close> at \<open>i * tileScale + pan\<close>. With center
  (512, 384), pan (0, 0) and zoom 1 to 2 the new pan is (-512, -384).
\<close>

theorem zoom_anchored_at_center:
  assumes "currentProduct s = Some p" and "max 0 (min (max_zoom p) newZoom) \<noteq> zoom s"
  shows "zoom (setZoom newZoom s) = max 0 (min (max_zoom p) newZoom)
       \<and> pan (setZoom newZoom s) =
           (of_nat (canvas_width s) / 2
              - (of_nat (canvas_width s) / 2 - fst (pan s)) * 2 powi (zoom (setZoom newZoom s) - zoom s),
            of_nat (canvas_height s) / 2
              - (of_nat (canvas_height s) / 2 - snd (pan s)) * 2 powi (zoom (setZoom newZoom s) - zoom s))
       \<and> (of_nat (canvas_width s) / 2 - fst (pan s)) / tileScale s * tileScale (setZoom newZoom s)
             + fst (pan (setZoom newZoom s))
           = of_nat (canvas_width s) / 2
       \<and> (of_nat (canvas_height s) / 2 - snd (pan s)) / tileScale s * tileScale (setZoom newZoom s)
             + snd (pan (setZoom newZoom s))
           = of_nat (canvas_height s) / 2"
proof -
  let ?s' = "setZoom newZoom s"
  have p: "pan ?s' =
     (of_nat (canvas_width s) / 2
        - (of_nat (canvas_width s) / 2 - fst (pan s)) * 2 powi (zoom ?s' - zoom s),
      of_nat (canvas_height s) / 2
        - (of_nat (canvas_height s) / 2 - snd (pan s)) * 2 powi (zoom ?s' - zoom s))"
    using assms by (rule setZoom_pan)
  have sc: "tileScale ?s' = tileScale s * 2 powi (zoom ?s' - zoom s)"
    by (simp add: tileScale_def power_int_diff)
  have nz: "tileScale s \<noteq> 0" using tileScale_pos[of s] by simp
  have a: "(c - q) / t * (t * k) + (c - (c - q) * k) = c" if "t \<noteq> 0" for c q k t :: rat
    using that by simp
  show ?thesis
    using setZoom_zoom[OF assms(1)] p a[OF nz] by (simp add: sc)
qed

theorem zoom_anchored_at_center_witness:
  "currentProduct (grid_state 1024 768 1 (0, 0)) = Some moon \<and>
   max 0 (min (max_zoom moon) 2) \<noteq> zoom (grid_state 1024 768 1 (0, 0)) \<and>
   zoom (setZoom 2 (grid_state 1024 768 1 (0, 0))) = 2 \<and>
   pan (setZoom 2 (grid_state 1024 768 1 (0, 0))) = (- 512, - 384)"
proof -
  have h1: "currentProduct (grid_state 1024 768 1 (0, 0)) = Some moon"
    by (simp add: grid_state_def)
  have h2: "max 0 (min (max_zoom moon) 2) \<noteq> zoom (grid_state 1024 768 1 (0, 0))"
    by (simp add: grid_state_def moon_def init_def)
  from zoom_anchored_at_center[OF h1 h2]
  have z: "zoom (setZoom 2 (grid_state 1024 768 1 (0, 0))) = 2"
    and p: "pan (setZoom 2 (grid_state 1024 768 1 (0, 0))) =
           (of_nat (canvas_width (grid_state 1024 768 1 (0, 0))) / 2
              - (of_nat (canvas_width (grid_state 1024 768 1 (0, 0))) / 2 - fst (pan (grid_state 1024 768 1 (0, 0))))
                * 2 powi (zoom (setZoom 2 (grid_state 1024 768 1 (0, 0))) - zoom (grid_state 1024 768 1 (0, 0))),
            of_nat (canvas_height (grid_state 1024 768 1 (0, 0))) / 2
              - (of_nat (canvas_height (grid_state 1024 768 1 (0, 0))) / 2 - snd (pan (grid_state 1024 768 1 (0, 0))))
                * 2 powi (zoom (setZoom 2 (grid_state 1024 768 1 (0, 0))) - zoom (grid_state 1024 768 1 (0, 0))))"
    by (simp_all add: moon_def)
  have "pan (setZoom 2 (grid_state 1024 768 1 (0, 0))) = (- 512, - 384)"
    unfolding p z by (simp add: grid_state_def init_def)
  with h1 h2 z show ?thesis by blast
qed

lemma loaded_state_eq:
  "loaded_state =
     \<lparr> currentProduct = Some moon, zoom = 1, pan = (384, 256), isDragging = True,
       dragStart = (- 384, - 256), tileImages = [''1-0-0'' \<mapsto> 7],
       loadingTiles = {''1-0-1''}, canvas_width = 1024, canvas_height = 768,
       suspended = [\<lparr> f_tile = Tile 0 1 1, f_product = ''moon'',
                      f_rest = [Tile 1 0 1, Tile 1 1 1] \<rparr>] \<rparr>"
  by (simp add: loaded_state_def trace_defs)

subsection \<open>Keys identify tiles\<close>

lemma digit_inj: "a < 10 \<Longrightarrow> b < 10 \<Longrightarrow> digit a = digit b \<Longrightarrow> a = b"
  unfolding digit_def by (subst (asm) nth_eq_iff_index_eq) simp_all

lemma digit_not_dash: "d < 10 \<Longrightarrow> digit d \<noteq> CHR ''-''"
proof -
  assume "d < 10"
  then have "digit d \<in> set ''0123456789''"
    unfolding digit_def by (intro nth_mem) simp
  then show ?thesis by auto
qed

lemma digits_not_Nil: "digits n \<noteq> []"
  by (subst digits.simps) simp

lemma dash_notin_digits: "CHR ''-'' \<notin> set (digits n)"
proof (induction n rule: digits.induct)
  case (1 n)
  show ?case
  proof (cases "n < 10")
    case True
    then show ?thesis using digit_not_dash[of n] by (subst digits.simps) auto
  next
    case False
    then show ?thesis using 1 digit_not_dash[of "n mod 10"]
      by (subst digits.simps) auto
  qed
qed

lemma digits_inj: "digits m = digits n \<Longrightarrow> m = n"
proof (induction m arbitrary: n rule: digits.induct)
  case (1 m)
  show ?case
  proof (cases "m < 10")
    case m: True
    show ?thesis
    proof (cases "n < 10")
      case True
      with m 1(2) show ?thesis by (simp add: digits_small digit_inj)
    next
      case False
      then have "length (digits n) \<ge> 2"
        using digits_not_Nil[of "n div 10"]
        by (subst digits.simps) (cases "digits (n div 10)"; simp)
      moreover have "length (digits m) = 1" using m by (simp add: digits_small)
      moreover have "length (digits m) = length (digits n)" using 1(2) by (rule arg_cong)
      ultimately show ?thesis by linarith
    qed
  next
    case m: False
    show ?thesis
    proof (cases "n < 10")
      case True
      from m have "length (digits m) \<ge> 2"
        using digits_not_Nil[of "m div 10"]
        by (subst digits.simps) (cases "digits (m div 10)"; simp)
      moreover have "length (digits n) = 1" using True by (simp add: digits_small)
      moreover have "length (digits m) = length (digits n)" using 1(2) by (rule arg_cong)
      ultimately show ?thesis by linarith
    next
      case False
      have "digits (m div 10) @ [digit (m mod 10)] = digits (n div 10) @ [digit (n mod 10)]"
        using 1(2) m False by (simp add: digits.simps[of m] digits.simps[of n])
      then have d: "digits (m div 10) = digits (n div 10)"
        and r: "digit (m mod 10) = digit (n mod 10)"
        by simp_all
      from 1(1)[OF m d] have "m div 10 = n div 10" .
      moreover from r have "m mod 10 = n mod 10" by (intro digit_inj) simp_all
      ultimately show ?thesis by (metis div_mult_mod_eq)
    qed
  qed
qed

lemma split_at_first:
  "x \<notin> set xs \<Longrightarrow> x \<notin> set xs' \<Longrightarrow> xs @ x # ys = xs' @ x # ys' \<Longrightarrow>
   xs = xs' \<and> ys = ys'"
proof (induction xs arbitrary: xs')
  case Nil
  then show ?case by (cases xs') auto
next
  case (Cons a as)
  show ?case
  proof (cases xs')
    case Nil
    with Cons.prems show ?thesis by auto
  next
    case (Cons b bs)
    with Cons.prems Cons.IH[of bs] show ?thesis by auto
  qed
qed

lemma tile_key_nonneg:
  "0 \<le> tzoom t \<Longrightarrow> 0 \<le> row t \<Longrightarrow> 0 \<le> col t \<Longrightarrow>
   tile_key t = digits (nat (tzoom t)) @ CHR ''-'' # digits (nat (row t)) @ CHR ''-'' # digits (nat (col t))"
  by (simp add: tile_key_def show_int_def)

lemma tile_key_inj:
  assumes a: "0 \<le> tzoom a" "0 \<le> row a" "0 \<le> col a"
    and b: "0 \<le> tzoom b" "0 \<le> row b" "0 \<le> col b"
    and k: "tile_key a = tile_key b"
  shows "a = b"
proof -
  from k have e: "digits (nat (tzoom a)) @ CHR ''-'' # (digits (nat (row a)) @ CHR ''-'' # digits (nat (col a)))
      = digits (nat (tzoom b)) @ CHR ''-'' # (digits (nat (row b)) @ CHR ''-'' # digits (nat (col b)))"
    by (simp add: tile_key_nonneg a b)
  have z: "digits (nat (tzoom a)) = digits (nat (tzoom b))"
    and e2: "digits (nat (row a)) @ CHR ''-'' # digits (nat (col a))
           = digits (nat (row b)) @ CHR ''-'' # digits (nat (col b))"
    using split_at_first[OF dash_notin_digits dash_notin_digits e] by simp_all
  have r: "digits (nat (row a)) = digits (nat (row b))"
    and c: "digits (nat (col a)) = digits (nat (col b))"
    using split_at_first[OF dash_notin_digits dash_notin_digits e2] by simp_all
  from z have "nat (tzoom a) = nat (tzoom b)" by (rule digits_inj)
  moreover from r have "nat (row a) = nat (row b)" by (rule digits_inj)
  moreover from c have "nat (col a) = nat (col b)" by (rule digits_inj)
  ultimately have "tzoom a = tzoom b" "row a = row b" "col a = col b"
    using a b by simp_all
  then show ?thesis by (rule tile.expand[OF conjI[OF _ conjI], rotated 2])
qed

lemma grid_rows:
  "t \<in> set (concat (map (\<lambda>r. map (\<lambda>c. Tile r c z) cols) rows)) \<Longrightarrow> row t \<in> set rows"
  by auto

lemma distinct_grid:
  "distinct rows \<Longrightarrow> distinct cols \<Longrightarrow>
   distinct (concat (map (\<lambda>r. map (\<lambda>c. Tile r c z) cols) rows))"
proof (induction rows)
  case Nil
  then show ?case by simp
next
  case (Cons r rows)
  have "distinct (map (\<lambda>c. Tile r c z) cols)"
    using Cons.prems(2) by (simp add: distinct_map inj_on_def)
  moreover have "set (map (\<lambda>c. Tile r c z) cols)
      \<inter> set (concat (map (\<lambda>r. map (\<lambda>c. Tile r c z) cols) rows)) = {}"
  proof (rule ccontr)
    assume "set (map (\<lambda>c. Tile r c z) cols)
      \<inter> set (concat (map (\<lambda>r. map (\<lambda>c. Tile r c z) cols) rows)) \<noteq> {}"
    then obtain t where t1: "t \<in> set (map (\<lambda>c. Tile r c z) cols)"
      and t2: "t \<in> set (concat (map (\<lambda>r. map (\<lambda>c. Tile r c z) cols) rows))"
      by blast
    from t1 have "row t = r" by auto
    with grid_rows[OF t2] Cons.prems(1) show False by simp
  qed
  ultimately show ?case using Cons by simp
qed

lemma distinct_getVisibleTiles: "distinct (getVisibleTiles s)"
  by (simp add: getVisibleTiles_def distinct_grid split: option.split)

lemma distinct_visible_keys:
  assumes "0 \<le> zoom s"
  shows "distinct (map tile_key (getVisibleTiles s))"
proof -
  have n: "0 \<le> tzoom t \<and> 0 \<le> row t \<and> 0 \<le> col t" if "t \<in> set (getVisibleTiles s)" for t
    using visible_tile_cases[OF that] startRow_nonneg[of s] startCol_nonneg[of s] assms
    by linarith
  have "inj_on tile_key (set (getVisibleTiles s))"
    by (rule inj_onI) (use n in \<open>blast intro: tile_key_inj\<close>)
  with distinct_getVisibleTiles show ?thesis by (simp add: distinct_map)
qed

subsection \<open>A pass left alone\<close>

text \<open>While only its own fetches complete, a pass over tiles with different keys, none of
  them cached, fetches them one after the other, whatever the outcomes.\<close>

lemma pass_step:
  assumes "currentProduct s = Some p"
    and "suspended s = old @ [\<lparr> f_tile = t, f_product = pid p, f_rest = t' # rest' \<rparr>]"
    and "loadingTiles s = {tile_key t}"
    and "tile_key t' \<noteq> tile_key t"
    and "tileImages s (tile_key t') = None"
  shows "fetchDone (length old) oc s =
     (settle t oc (s\<lparr> suspended := old \<rparr>))
       \<lparr> loadingTiles := {tile_key t'},
         suspended := old @ [\<lparr> f_tile = t', f_product = pid p, f_rest = rest' \<rparr>] \<rparr>"
  using assms by (cases oc) (simp_all add: fetchDone_def settle_def needsFetch_def Let_def)

lemma settle_dom: "dom (tileImages (settle t oc s)) \<subseteq> insert (tile_key t) (dom (tileImages s))"
  by (cases oc) (auto simp: settle_def Let_def)

lemma disjoint_after_insert: "A \<subseteq> insert k D \<Longrightarrow> k \<notin> K \<Longrightarrow> D \<inter> K = {} \<Longrightarrow> A \<inter> K = {}"
  by blast

lemma pass_alone:
  assumes "currentProduct s = Some p"
    and "suspended s = old @ [\<lparr> f_tile = t, f_product = pid p, f_rest = rest \<rparr>]"
    and "loadingTiles s = {tile_key t}"
    and "distinct (map tile_key (t # rest))"
    and "dom (tileImages s) \<inter> tile_key ` set (t # rest) = {}"
    and "length ocs \<le> length rest"
  shows "suspended (run (map (FetchDone (length old)) ocs) s)
           = old @ [\<lparr> f_tile = (t # rest) ! length ocs, f_product = pid p,
                      f_rest = drop (Suc (length ocs)) (t # rest) \<rparr>]
       \<and> loadingTiles (run (map (FetchDone (length old)) ocs) s)
           = {tile_key ((t # rest) ! length ocs)}"
  using assms
proof (induction ocs arbitrary: s t rest)
  case Nil
  then show ?case by simp
next
  case (Cons oc ocs)
  from Cons.prems(6) obtain t' rest' where rest: "rest = t' # rest'"
    by (cases rest) auto
  let ?s' = "(settle t oc (s\<lparr> suspended := old \<rparr>))
       \<lparr> loadingTiles := {tile_key t'},
         suspended := old @ [\<lparr> f_tile = t', f_product = pid p, f_rest = rest' \<rparr>] \<rparr>"
  have ne: "tile_key t' \<noteq> tile_key t"
    using Cons.prems(4) rest by auto
  have nc: "tileImages s (tile_key t') = None"
    using Cons.prems(5) rest by auto
  have st: "fetchDone (length old) oc s = ?s'"
    using Cons.prems(1) Cons.prems(2)[unfolded rest] Cons.prems(3) ne nc by (rule pass_step)
  have p1: "currentProduct ?s' = Some p"
    using Cons.prems(1) by (cases oc) (simp_all add: settle_def Let_def)
  have p2: "suspended ?s' = old @ [\<lparr> f_tile = t', f_product = pid p, f_rest = rest' \<rparr>]"
    by simp
  have p3: "loadingTiles ?s' = {tile_key t'}" by simp
  have p4: "distinct (map tile_key (t' # rest'))"
    using Cons.prems(4) rest by simp
  have "dom (tileImages ?s') \<subseteq> insert (tile_key t) (dom (tileImages s))"
    using settle_dom[of t oc "s\<lparr> suspended := old \<rparr>"] by simp
  moreover have "tile_key t \<notin> tile_key ` set (t' # rest')"
    using Cons.prems(4) rest by auto
  moreover have "dom (tileImages s) \<inter> tile_key ` set (t' # rest') = {}"
    using Cons.prems(5) rest by auto
  ultimately have p5: "dom (tileImages ?s') \<inter> tile_key ` set (t' # rest') = {}"
    by (rule disjoint_after_insert)
  have p6: "length ocs \<le> length rest'"
    using Cons.prems(6) rest by simp
  from Cons.IH[OF p1 p2 p3 p4 p5 p6] show ?case
    by (simp add: st rest)
qed

lemma pass_after_clear:
  assumes p: "currentProduct s = Some p" and z: "0 \<le> zoom s"
    and n: "length ocs < length (getVisibleTiles s)"
  shows "suspended (run (map (FetchDone (length (suspended s))) ocs)
                      (loadVisibleTiles (clearTileCache s)))
           = suspended s @ [\<lparr> f_tile = getVisibleTiles s ! length ocs, f_product = pid p,
                               f_rest = drop (Suc (length ocs)) (getVisibleTiles s) \<rparr>]
       \<and> loadingTiles (run (map (FetchDone (length (suspended s))) ocs)
                      (loadVisibleTiles (clearTileCache s)))
           = {tile_key (getVisibleTiles s ! length ocs)}"
proof -
  from n obtain t rest where v: "getVisibleTiles s = t # rest"
    by (cases "getVisibleTiles s") auto
  let ?c = "loadVisibleTiles (clearTileCache s)"
  have a1: "currentProduct ?c = Some p" using p by simp
  have a2: "suspended ?c = suspended s @ [\<lparr> f_tile = t, f_product = pid p, f_rest = rest \<rparr>]"
    using loadVisibleTiles_after_clear(3)[OF p] v by simp
  have a3: "loadingTiles ?c = {tile_key t}"
    using loadVisibleTiles_after_clear(2)[OF p] v by simp
  have a4: "distinct (map tile_key (t # rest))"
    using distinct_visible_keys[OF z] v by simp
  have a5: "dom (tileImages ?c) \<inter> tile_key ` set (t # rest) = {}"
    by simp
  have a6: "length ocs \<le> length rest" using n v by simp
  from pass_alone[OF a1 a2 a3 a4 a5 a6] show ?thesis by (simp add: v)
qed

lemma setZoom_pass:
  assumes p: "currentProduct s = Some p" and e: "max 0 (min (max_zoom p) newZoom) \<noteq> zoom s"
    and n: "length ocs < length (getVisibleTiles (setZoom newZoom s))"
  shows "suspended (run (map (FetchDone (length (suspended s))) ocs) (setZoom newZoom s))
           = suspended s @ [\<lparr> f_tile = getVisibleTiles (setZoom newZoom s) ! length ocs,
                               f_product = pid p,
                               f_rest = drop (Suc (length ocs)) (getVisibleTiles (setZoom newZoom s)) \<rparr>]
       \<and> loadingTiles (run (map (FetchDone (length (suspended s))) ocs) (setZoom newZoom s))
           = {tile_key (getVisibleTiles (setZoom newZoom s) ! length ocs)}"
proof -
  let ?u = "s\<lparr> zoom := max 0 (min (max_zoom p) newZoom),
           pan := (of_nat (canvas_width s) / 2
                     - (of_nat (canvas_width s) / 2 - fst (pan s))
                       * 2 powi (max 0 (min (max_zoom p) newZoom) - zoom s),
                   of_nat (canvas_height s) / 2
                     - (of_nat (canvas_height s) / 2 - snd (pan s))
                       * 2 powi (max 0 (min (max_zoom p) newZoom) - zoom s)) \<rparr>"
  have eq: "setZoom newZoom s = loadVisibleTiles (clearTileCache ?u)"
    using p e by (rule setZoom_effective)
  have u: "currentProduct ?u = Some p" "0 \<le> zoom ?u" "suspended ?u = suspended s"
    using p by simp_all
  have v: "getVisibleTiles (setZoom newZoom s) = getVisibleTiles ?u"
    by (simp add: eq)
  from n have n': "length ocs < length (getVisibleTiles ?u)" by (simp only: v)
  from pass_after_clear[OF u(1,2) n'] show ?thesis
    unfolding v unfolding eq u(3) .
qed

lemma handleProductChange_pass:
  assumes n: "length ocs < length (getVisibleTiles (handleProductChange q s))"
  shows "suspended (run (map (FetchDone (length (suspended s))) ocs) (handleProductChange q s))
           = suspended s @ [\<lparr> f_tile = getVisibleTiles (handleProductChange q s) ! length ocs,
                               f_product = pid q,
                               f_rest = drop (Suc (length ocs)) (getVisibleTiles (handleProductChange q s)) \<rparr>]
       \<and> loadingTiles (run (map (FetchDone (length (suspended s))) ocs) (handleProductChange q s))
           = {tile_key (getVisibleTiles (handleProductChange q s) ! length ocs)}"
proof -
  let ?u = "resetView (s\<lparr> currentProduct := Some q \<rparr>)"
  have eq: "handleProductChange q s = loadVisibleTiles (clearTileCache ?u)"
    by (simp add: handleProductChange_def)
  have u: "currentProduct ?u = Some q" "0 \<le> zoom ?u" "suspended ?u = suspended s"
    by (simp_all add: resetView_def)
  have v: "getVisibleTiles (handleProductChange q s) = getVisibleTiles ?u"
    by (simp add: eq)
  from n have n': "length ocs < length (getVisibleTiles ?u)" by (simp only: v)
  from pass_after_clear[OF u(1,2) n'] show ?thesis
    unfolding v unfolding eq u(3) .
qed

subsection \<open>Suspended passes\<close>

lemma passes_ok_cong:
  "zoom s' = zoom s \<Longrightarrow> suspended s' = suspended s \<Longrightarrow> passes_ok s \<Longrightarrow> passes_ok s'"
  by (simp add: passes_ok_def)

lemma runLoop_suspended_ok:
  "distinct (map tile_key ts) \<Longrightarrow> list_all pass_ok (suspended s) \<Longrightarrow>
   list_all pass_ok (suspended (runLoop ts s))"
  by (induction ts) (auto simp: pass_ok_def split: option.split)

lemma runLoop_passes_ok:
  "distinct (map tile_key ts) \<Longrightarrow> passes_ok s \<Longrightarrow> passes_ok (runLoop ts s)"
  by (simp add: passes_ok_def runLoop_suspended_ok)

lemma loadVisibleTiles_passes_ok: "passes_ok s \<Longrightarrow> passes_ok (loadVisibleTiles s)"
  by (auto simp: loadVisibleTiles_def passes_ok_def
      intro!: runLoop_suspended_ok distinct_visible_keys split: option.split)

lemma passes_ok_pan [simp]: "passes_ok (s\<lparr> pan := x \<rparr>) = passes_ok s"
  by (simp add: passes_ok_def)

lemma fetchDone_passes_ok:
  assumes "passes_ok s"
  shows "passes_ok (fetchDone i oc s)"
proof (cases "i < length (suspended s)")
  case True
  let ?f = "suspended s ! i"
  let ?s1 = "settle (f_tile ?f) oc (s\<lparr> suspended := take i (suspended s) @ drop (Suc i) (suspended s) \<rparr>)"
  have all: "list_all pass_ok (suspended s)" and z: "0 \<le> zoom s"
    using assms by (simp_all add: passes_ok_def)
  from all True have "pass_ok ?f" by (simp add: list_all_length)
  then have d: "distinct (map tile_key (f_rest ?f))" by (simp add: pass_ok_def)
  have "list_all pass_ok (take i (suspended s) @ drop (Suc i) (suspended s))"
    using all by (auto simp: list_all_iff dest: in_set_takeD in_set_dropD)
  then have "passes_ok ?s1"
    using z by (cases oc) (simp_all add: passes_ok_def settle_def Let_def)
  from runLoop_passes_ok[OF d this] True show ?thesis
    by (simp add: fetchDone_def Let_def)
next
  case False
  with assms show ?thesis by (simp add: fetchDone_def)
qed

lemma passes_okI:
  "0 \<le> zoom s' \<Longrightarrow> suspended s' = suspended s \<Longrightarrow> passes_ok s \<Longrightarrow> passes_ok s'"
  by (simp add: passes_ok_def)

lemma setZoom_passes_ok:
  assumes "passes_ok s"
  shows "passes_ok (setZoom n s)"
proof (cases "currentProduct s")
  case None
  with assms show ?thesis by (simp add: setZoom_def)
next
  case (Some p)
  show ?thesis
  proof (cases "max 0 (min (max_zoom p) n) = zoom s")
    case True
    with Some assms show ?thesis by (simp add: setZoom_same)
  next
    case False
    have "passes_ok (clearTileCache
       (s\<lparr> zoom := max 0 (min (max_zoom p) n),
           pan := (of_nat (canvas_width s) / 2
                     - (of_nat (canvas_width s) / 2 - fst (pan s))
                       * 2 powi (max 0 (min (max_zoom p) n) - zoom s),
                   of_nat (canvas_height s) / 2
                     - (of_nat (canvas_height s) / 2 - snd (pan s))
                       * 2 powi (max 0 (min (max_zoom p) n) - zoom s)) \<rparr>))"
      using assms by (rule passes_okI[rotated 2]) simp_all
    then show ?thesis
      unfolding setZoom_effective[OF Some False] by (rule loadVisibleTiles_passes_ok)
  qed
qed

lemma step_passes_ok:
  assumes ok: "passes_ok s"
  shows "passes_ok (step e s)"
proof (cases e)
  case (FetchDone i oc)
  then show ?thesis using ok by (simp add: fetchDone_passes_ok)
next
  case (MouseMove cx cy)
  then show ?thesis using ok
    by (simp add: handleMouseMove_def loadVisibleTiles_passes_ok)
next
  case (ProductChange q)
  have "passes_ok (clearTileCache (resetView (s\<lparr> currentProduct := Some q \<rparr>)))"
    using ok by (rule passes_okI[rotated 2]) (simp_all add: resetView_def)
  then show ?thesis using ProductChange
    by (simp add: handleProductChange_def loadVisibleTiles_passes_ok)
next
  case (Resize w h)
  have "passes_ok (s\<lparr> canvas_width := w, canvas_height := h \<rparr>)"
    using ok by (simp add: passes_ok_def)
  then show ?thesis using Resize
    by (simp add: resizeCanvas_def Let_def loadVisibleTiles_passes_ok split: option.split)
next
  case (MouseDown cx cy)
  then show ?thesis using ok by (simp add: handleMouseDown_def passes_ok_def)
next
  case MouseUp
  then show ?thesis using ok by (simp add: handleMouseUp_def passes_ok_def)
next
  case (Wheel dy)
  then show ?thesis using ok by (simp add: handleWheel_def setZoom_passes_ok)
next
  case ZoomIn
  then show ?thesis using ok by (simp add: setZoom_passes_ok)
next
  case ZoomOut
  then show ?thesis using ok by (simp add: setZoom_passes_ok)
next
  case ResetClick
  then show ?thesis using ok by (simp add: resetView_def passes_ok_def)
next
  case (ProductsLoaded ps)
  then show ?thesis using ok
    by (cases ps) (simp_all add: loadProducts_def resetView_def passes_ok_def)
qed

lemma run_passes_ok: "passes_ok s \<Longrightarrow> passes_ok (run es s)"
  by (induction es arbitrary: s) (simp_all add: step_passes_ok)

lemma reachable_passes_ok: "passes_ok (run es (init w h))"
  by (rule run_passes_ok) (simp add: passes_ok_def init_def)

lemma runLoop_loading_sub:
  "loadingTiles (runLoop ts s) \<subseteq> loadingTiles s \<union> tile_key ` set ts"
  by (induction ts) (auto split: option.split)

lemma fetchDone_removes_key:
  assumes ok: "passes_ok s" and i: "i < length (suspended s)"
  shows "fetch_key (suspended s ! i) \<notin> loadingTiles (fetchDone i oc s)"
proof -
  let ?f = "suspended s ! i"
  let ?s1 = "settle (f_tile ?f) oc (s\<lparr> suspended := take i (suspended s) @ drop (Suc i) (suspended s) \<rparr>)"
  from ok i have "pass_ok ?f" by (simp add: passes_ok_def list_all_length)
  then have a: "tile_key (f_tile ?f) \<notin> tile_key ` set (f_rest ?f)"
    by (simp add: pass_ok_def)
  have b: "tile_key (f_tile ?f) \<notin> loadingTiles ?s1"
    by (simp add: settle_def Let_def)
  from a b runLoop_loading_sub[of "f_rest ?f" ?s1] i show ?thesis
    by (auto simp: fetchDone_def Let_def fetch_key_def)
qed

subsection \<open>Invalidation\<close>

lemma handleProductChange_cleared:
  "tileImages (handleProductChange q s) = Map.empty"
  "loadingTiles (handleProductChange q s)
     = tile_key ` set (take 1 (getVisibleTiles (handleProductChange q s)))"
  "suspended (handleProductChange q s) =
     suspended s @ (case getVisibleTiles (handleProductChange q s) of [] \<Rightarrow> []
        | t # rest \<Rightarrow> [\<lparr> f_tile = t, f_product = pid q, f_rest = rest \<rparr>])"
proof -
  let ?u = "resetView (s\<lparr> currentProduct := Some q \<rparr>)"
  have u: "currentProduct ?u = Some q" by (simp add: resetView_def)
  have su: "suspended ?u = suspended s" by (simp add: resetView_def)
  have v: "getVisibleTiles (handleProductChange q s) = getVisibleTiles ?u"
    by (simp add: handleProductChange_def)
  show "tileImages (handleProductChange q s) = Map.empty"
    by (simp add: handleProductChange_def)
  show "loadingTiles (handleProductChange q s)
     = tile_key ` set (take 1 (getVisibleTiles (handleProductChange q s)))"
    unfolding v unfolding handleProductChange_def by (rule loadVisibleTiles_after_clear(2)[OF u])
  show "suspended (handleProductChange q s) =
     suspended s @ (case getVisibleTiles (handleProductChange q s) of [] \<Rightarrow> []
        | t # rest \<Rightarrow> [\<lparr> f_tile = t, f_product = pid q, f_rest = rest \<rparr>])"
    unfolding v unfolding handleProductChange_def
    using loadVisibleTiles_after_clear(3)[OF u] su by simp
qed

lemma handleMouseMove_keeps:
  "tileImages (handleMouseMove cx cy s) = tileImages s"
  "loadingTiles s \<subseteq> loadingTiles (handleMouseMove cx cy s)"
  "zoom (handleMouseMove cx cy s) = zoom s"
  using loadVisibleTiles_loadingTiles_mono[of "s\<lparr> pan := (cx - fst (dragStart s), cy - snd (dragStart s)) \<rparr>"]
  by (simp_all add: handleMouseMove_def)

text \<open>
  C5 (as amended). A \<^verbatim>\<open>setZoom\<close> that changes the zoom level and every
  \<^verbatim>\<open>handleProductChange\<close> leave the cache empty and nothing in \<^verbatim>\<open>loadingTiles\<close> but the key
  that the pass they start has just requested, the first visible tile; that pass is
  suspended on this fetch and holds the other visible tiles. While only its own fetches
  complete, whatever their outcomes, it requests the visible tiles one after the other:
  after \<open>k\<close> completions it is fetching the visible tile of index \<open>k\<close>. The mouse handlers
  remove nothing: the cache is unchanged and \<^verbatim>\<open>loadingTiles\<close> can only grow.
\<close>

theorem invalidation_by_setZoom_and_product_change:
  "(currentProduct s = Some p \<and> max 0 (min (max_zoom p) newZoom) \<noteq> zoom s \<longrightarrow>
      tileImages (setZoom newZoom s) = Map.empty
    \<and> loadingTiles (setZoom newZoom s)
        = tile_key ` set (take 1 (getVisibleTiles (setZoom newZoom s)))
    \<and> suspended (setZoom newZoom s) =
        suspended s @ (case getVisibleTiles (setZoom newZoom s) of [] \<Rightarrow> []
           | t # rest \<Rightarrow> [\<lparr> f_tile = t, f_product = pid p, f_rest = rest \<rparr>]))
 \<and> (currentProduct s = Some p \<and> max 0 (min (max_zoom p) newZoom) \<noteq> zoom s
      \<and> length ocs < length (getVisibleTiles (setZoom newZoom s)) \<longrightarrow>
      suspended (run (map (FetchDone (length (suspended s))) ocs) (setZoom newZoom s))
        = suspended s @ [\<lparr> f_tile = getVisibleTiles (setZoom newZoom s) ! length ocs,
                            f_product = pid p,
                            f_rest = drop (Suc (length ocs)) (getVisibleTiles (setZoom newZoom s)) \<rparr>]
    \<and> loadingTiles (run (map (FetchDone (length (suspended s))) ocs) (setZoom newZoom s))
        = {tile_key (getVisibleTiles (setZoom newZoom s) ! length ocs)})
 \<and> tileImages (handleProductChange q s) = Map.empty
 \<and> loadingTiles (handleProductChange q s)
      = tile_key ` set (take 1 (getVisibleTiles (handleProductChange q s)))
 \<and> suspended (handleProductChange q s) =
      suspended s @ (case getVisibleTiles (handleProductChange q s) of [] \<Rightarrow> []
         | t # rest \<Rightarrow> [\<lparr> f_tile = t, f_product = pid q, f_rest = rest \<rparr>])
 \<and> (length ocs < length (getVisibleTiles (handleProductChange q s)) \<longrightarrow>
      suspended (run (map (FetchDone (length (suspended s))) ocs) (handleProductChange q s))
        = suspended s @ [\<lparr> f_tile = getVisibleTiles (handleProductChange q s) ! length ocs,
                            f_product = pid q,
                            f_rest = drop (Suc (length ocs)) (getVisibleTiles (handleProductChange q s)) \<rparr>]
    \<and> loadingTiles (run (map (FetchDone (length (suspended s))) ocs) (handleProductChange q s))
        = {tile_key (getVisibleTiles (handleProductChange q s) ! length ocs)})
 \<and> tileImages (handleMouseDown cx cy s) = tileImages s
 \<and> loadingTiles (handleMouseDown cx cy s) = loadingTiles s
 \<and> tileImages (handleMouseMove cx cy s) = tileImages s
 \<and> loadingTiles s \<subseteq> loadingTiles (handleMouseMove cx cy s)
 \<and> tileImages (handleMouseUp s) = tileImages s
 \<and> loadingTiles (handleMouseUp s) = loadingTiles s"
proof -
  have A: "currentProduct s = Some p \<and> max 0 (min (max_zoom p) newZoom) \<noteq> zoom s \<longrightarrow>
      tileImages (setZoom newZoom s) = Map.empty
    \<and> loadingTiles (setZoom newZoom s)
        = tile_key ` set (take 1 (getVisibleTiles (setZoom newZoom s)))
    \<and> suspended (setZoom newZoom s) =
        suspended s @ (case getVisibleTiles (setZoom newZoom s) of [] \<Rightarrow> []
           | t # rest \<Rightarrow> [\<lparr> f_tile = t, f_product = pid p, f_rest = rest \<rparr>])"
    using setZoom_cleared[where s = s and p = p and newZoom = newZoom] by simp
  have B: "currentProduct s = Some p \<and> max 0 (min (max_zoom p) newZoom) \<noteq> zoom s
      \<and> length ocs < length (getVisibleTiles (setZoom newZoom s)) \<longrightarrow>
      suspended (run (map (FetchDone (length (suspended s))) ocs) (setZoom newZoom s))
        = suspended s @ [\<lparr> f_tile = getVisibleTiles (setZoom newZoom s) ! length ocs,
                            f_product = pid p,
                            f_rest = drop (Suc (length ocs)) (getVisibleTiles (setZoom newZoom s)) \<rparr>]
    \<and> loadingTiles (run (map (FetchDone (length (suspended s))) ocs) (setZoom newZoom s))
        = {tile_key (getVisibleTiles (setZoom newZoom s) ! length ocs)}"
    using setZoom_pass[where s = s and p = p and newZoom = newZoom and ocs = ocs]
    by (intro impI) (elim conjE)
  have D: "length ocs < length (getVisibleTiles (handleProductChange q s)) \<longrightarrow>
      suspended (run (map (FetchDone (length (suspended s))) ocs) (handleProductChange q s))
        = suspended s @ [\<lparr> f_tile = getVisibleTiles (handleProductChange q s) ! length ocs,
                            f_product = pid q,
                            f_rest = drop (Suc (length ocs)) (getVisibleTiles (handleProductChange q s)) \<rparr>]
    \<and> loadingTiles (run (map (FetchDone (length (suspended s))) ocs) (handleProductChange q s))
        = {tile_key (getVisibleTiles (handleProductChange q s) ! length ocs)}"
    using handleProductChange_pass[where q = q and s = s and ocs = ocs]
    by (intro impI)
  have E: "tileImages (handleMouseDown cx cy s) = tileImages s"
    "loadingTiles (handleMouseDown cx cy s) = loadingTiles s"
    "tileImages (handleMouseUp s) = tileImages s"
    "loadingTiles (handleMouseUp s) = loadingTiles s"
    by (simp_all add: handleMouseDown_def handleMouseUp_def)
  show ?thesis
    by (intro conjI A B D E handleProductChange_cleared handleMouseMove_keeps(1,2))
qed

text \<open>
  As stated, the claim has every zoom change and every product change clear the cache and
  the in-flight set, and the following pass request every visible key. The reset button
  takes the zoom from 2 to 1 and keeps the key in flight; the arrival of the product list
  replaces the product chosen by the user by the first of the list and keeps the cached
  tile. After a product change, a fetch still pending from before stores its image under
  the key of the visible tile (0,1), and the new pass, which finds it cached, goes from
  tile (0,0) to tile (1,1) and ends without a request for it.
\<close>

theorem invalidation_counterexample:
  "zoom (run [ProductsLoaded [moon], MouseDown 0 0, MouseMove 0 0, ZoomIn] (init 1024 768)) = 2 \<and>
   zoom (run [ProductsLoaded [moon], MouseDown 0 0, MouseMove 0 0, ZoomIn, ResetClick]
      (init 1024 768)) = 1 \<and>
   loadingTiles (run [ProductsLoaded [moon], MouseDown 0 0, MouseMove 0 0, ZoomIn, ResetClick]
      (init 1024 768)) = {''2-0-0''} \<and>
   currentProduct (run [ProductsLoaded [moon, mars], ProductChange mars, FetchDone 0 (Loaded 7)]
      (init 1024 768)) = Some mars \<and>
   currentProduct (run [ProductsLoaded [moon, mars], ProductChange mars, FetchDone 0 (Loaded 7),
      ProductsLoaded [moon, mars]] (init 1024 768)) = Some moon \<and>
   tileImages (run [ProductsLoaded [moon, mars], ProductChange mars, FetchDone 0 (Loaded 7),
      ProductsLoaded [moon, mars]] (init 1024 768)) ''1-0-0'' = Some 7 \<and>
   outstanding (run [ProductsLoaded [moon, mars], MouseDown 0 0, MouseMove 0 0,
      FetchDone 0 (Loaded 7), ProductChange mars] (init 1024 768))
     = [(''moon'', ''1-0-1''), (''mars'', ''1-0-0'')] \<and>
   getVisibleTiles (run [ProductsLoaded [moon, mars], MouseDown 0 0, MouseMove 0 0,
      FetchDone 0 (Loaded 7), ProductChange mars] (init 1024 768))
     = [Tile 0 0 1, Tile 0 1 1, Tile 1 0 1, Tile 1 1 1] \<and>
   outstanding (run [ProductsLoaded [moon, mars], MouseDown 0 0, MouseMove 0 0,
      FetchDone 0 (Loaded 7), ProductChange mars, FetchDone 0 (Loaded 8)] (init 1024 768))
     = [(''mars'', ''1-0-0''), (''mars'', ''1-1-0'')] \<and>
   outstanding (run [ProductsLoaded [moon, mars], MouseDown 0 0, MouseMove 0 0,
      FetchDone 0 (Loaded 7), ProductChange mars, FetchDone 0 (Loaded 8), FetchDone 0 (Loaded 9)]
      (init 1024 768))
     = [(''mars'', ''1-1-0''), (''mars'', ''1-1-1'')] \<and>
   outstanding (run [ProductsLoaded [moon, mars], MouseDown 0 0, MouseMove 0 0,
      FetchDone 0 (Loaded 7), ProductChange mars, FetchDone 0 (Loaded 8), FetchDone 0 (Loaded 9),
      FetchDone 0 (Loaded 10), FetchDone 0 (Loaded 11)] (init 1024 768))
     = [] \<and>
   tileImages (run [ProductsLoaded [moon, mars], MouseDown 0 0, MouseMove 0 0,
      FetchDone 0 (Loaded 7), ProductChange mars, FetchDone 0 (Loaded 8), FetchDone 0 (Loaded 9),
      FetchDone 0 (Loaded 10), FetchDone 0 (Loaded 11)] (init 1024 768)) ''1-0-1''
     = Some 8"
  by (simp add: trace_defs mars_def outstanding_def fetch_id_def fetch_key_def)

theorem invalidation_by_setZoom_and_product_change_witness:
  "currentProduct loaded_state = Some moon \<and>
   max 0 (min (max_zoom moon) 2) \<noteq> zoom loaded_state \<and>
   tileImages loaded_state ''1-0-0'' = Some 7 \<and>
   loadingTiles loaded_state = {''1-0-1''} \<and>
   tileImages (setZoom 2 loaded_state) = Map.empty \<and>
   loadingTiles (setZoom 2 loaded_state) = {''2-0-0''} \<and>
   length [NotOk, Loaded 3] < length (getVisibleTiles (setZoom 2 loaded_state)) \<and>
   loadingTiles (run [FetchDone 1 NotOk, FetchDone 1 (Loaded 3)] (setZoom 2 loaded_state))
     = {''2-1-0''} \<and>
   loadingTiles (handleProductChange moon loaded_state) = {''1-0-0''} \<and>
   length [NotOk, Loaded 3] < length (getVisibleTiles (handleProductChange moon loaded_state)) \<and>
   loadingTiles (run [FetchDone 1 NotOk, FetchDone 1 (Loaded 3)]
      (handleProductChange moon loaded_state)) = {''1-1-0''} \<and>
   tileImages (handleMouseMove 0 0 loaded_state) ''1-0-0'' = Some 7"
proof -
  note T = invalidation_by_setZoom_and_product_change[where s = loaded_state and p = moon and newZoom = 2
      and ocs = "[NotOk, Loaded 3]" and q = moon and cx = 0 and cy = 0]
  have h: "currentProduct loaded_state = Some moon \<and>
      max 0 (min (max_zoom moon) 2) \<noteq> zoom loaded_state"
    by (simp add: loaded_state_eq moon_def)
  have c: "tileImages loaded_state ''1-0-0'' = Some 7" "loadingTiles loaded_state = {''1-0-1''}"
    "length (suspended loaded_state) = 1"
    by (simp_all add: loaded_state_eq)
  have v: "getVisibleTiles (setZoom 2 loaded_state)
             = [Tile 0 0 2, Tile 0 1 2, Tile 1 0 2, Tile 1 1 2]"
    and w: "getVisibleTiles (handleProductChange moon loaded_state)
             = [Tile 0 0 1, Tile 0 1 1, Tile 1 0 1, Tile 1 1 1]"
    by (simp_all add: loaded_state_eq trace_defs)
  have k: "tile_key (Tile 0 0 2) = ''2-0-0''" "tile_key (Tile 0 0 1) = ''1-0-0''"
    "tile_key (Tile 1 0 2) = ''2-1-0''" "tile_key (Tile 1 0 1) = ''1-1-0''"
    by (simp_all add: key_defs)
  have n: "length [NotOk, Loaded 3] < length (getVisibleTiles (setZoom 2 loaded_state))"
    and m: "length [NotOk, Loaded 3] < length (getVisibleTiles (handleProductChange moon loaded_state))"
    by (simp_all add: v w)
  from T[THEN conjunct1, rule_format, OF h]
  have a: "tileImages (setZoom 2 loaded_state) = Map.empty"
    "loadingTiles (setZoom 2 loaded_state) = {''2-0-0''}"
    by (simp_all add: v k)
  from T[THEN conjunct2, THEN conjunct1, rule_format, OF conjI[OF h[THEN conjunct1] conjI[OF h[THEN conjunct2] n]]]
  have b: "loadingTiles (run [FetchDone 1 NotOk, FetchDone 1 (Loaded 3)] (setZoom 2 loaded_state))
     = {''2-1-0''}"
    by (simp add: v k c(3))
  from T[THEN conjunct2, THEN conjunct2, THEN conjunct2, THEN conjunct1]
  have d: "loadingTiles (handleProductChange moon loaded_state) = {''1-0-0''}"
    by (simp add: w k)
  from T[THEN conjunct2, THEN conjunct2, THEN conjunct2, THEN conjunct2, THEN conjunct2,
      THEN conjunct1, rule_format, OF m]
  have e: "loadingTiles (run [FetchDone 1 NotOk, FetchDone 1 (Loaded 3)]
      (handleProductChange moon loaded_state)) = {''1-1-0''}"
    by (simp add: w k c(3))
  from T[THEN conjunct2, THEN conjunct2, THEN conjunct2, THEN conjunct2, THEN conjunct2,
      THEN conjunct2, THEN conjunct2, THEN conjunct2, THEN conjunct1] c(1)
  have f: "tileImages (handleMouseMove 0 0 loaded_state) ''1-0-0'' = Some 7"
    by simp
  show ?thesis
    by (intro conjI h[THEN conjunct1] h[THEN conjunct2] c(1,2) a n b d m e f)
qed

text \<open>
  C6. With a product selected whose \<^verbatim>\<open>max_zoom\<close> is not negative, \<^verbatim>\<open>setZoom(target)\<close> sets
  the zoom to \<open>max 0 (min max_zoom target)\<close>, which lies in \<open>[0, max_zoom]\<close>. If that is the
  current zoom the state is unchanged. Otherwise the pan is the center-anchored one, the
  cache is empty, and \<^verbatim>\<open>loadingTiles\<close> holds only the first request of the new pass.
\<close>

theorem setZoom_clamps_and_invalidates:
  assumes "currentProduct s = Some p" and "0 \<le> max_zoom p"
  shows "0 \<le> zoom (setZoom target s) \<and> zoom (setZoom target s) \<le> max_zoom p
       \<and> zoom (setZoom target s) = max 0 (min (max_zoom p) target)
       \<and> (max 0 (min (max_zoom p) target) = zoom s \<longrightarrow> setZoom target s = s)
       \<and> (max 0 (min (max_zoom p) target) \<noteq> zoom s \<longrightarrow>
            pan (setZoom target s) =
              (of_nat (canvas_width s) / 2
                 - (of_nat (canvas_width s) / 2 - fst (pan s))
                   * 2 powi (zoom (setZoom target s) - zoom s),
               of_nat (canvas_height s) / 2
                 - (of_nat (canvas_height s) / 2 - snd (pan s))
                   * 2 powi (zoom (setZoom target s) - zoom s))
          \<and> tileImages (setZoom target s) = Map.empty
          \<and> loadingTiles (setZoom target s)
              = tile_key ` set (take 1 (getVisibleTiles (setZoom target s))))"
proof -
  have z: "zoom (setZoom target s) = max 0 (min (max_zoom p) target)"
    using assms(1) by (rule setZoom_zoom)
  have b: "0 \<le> max 0 (min (max_zoom p) target)" "max 0 (min (max_zoom p) target) \<le> max_zoom p"
    using assms(2) by simp_all
  show ?thesis
    using z b setZoom_same[OF assms(1), of target] setZoom_pan[OF assms(1), of target]
      setZoom_cleared(1,2)[OF assms(1), of target]
    by simp
qed

theorem setZoom_clamps_and_invalidates_witness:
  "currentProduct loaded_state = Some moon \<and> 0 \<le> max_zoom moon \<and>
   zoom (setZoom 5 loaded_state) = 3 \<and>
   max 0 (min (max_zoom moon) 5) \<noteq> zoom loaded_state \<and>
   tileImages (setZoom 5 loaded_state) = Map.empty \<and>
   pan (setZoom 5 loaded_state) = (0, - 128) \<and>
   zoom (setZoom (- 3) loaded_state) = 0 \<and>
   max 0 (min (max_zoom moon) 1) = zoom loaded_state \<and>
   setZoom 1 loaded_state = loaded_state"
proof -
  have h1: "currentProduct loaded_state = Some moon" by (simp add: loaded_state_eq)
  have h2: "0 \<le> max_zoom moon" by (simp add: moon_def)
  have e: "max 0 (min (max_zoom moon) 5) \<noteq> zoom loaded_state"
    "max 0 (min (max_zoom moon) 1) = zoom loaded_state"
    by (simp_all add: loaded_state_eq moon_def)
  have d: "canvas_width loaded_state = 1024" "canvas_height loaded_state = 768"
    "pan loaded_state = (384, 256)" "zoom loaded_state = 1"
    by (simp_all add: loaded_state_eq)
  from setZoom_clamps_and_invalidates[OF h1 h2, of 5] e(1)
  have a: "zoom (setZoom 5 loaded_state) = 3" "tileImages (setZoom 5 loaded_state) = Map.empty"
    "pan (setZoom 5 loaded_state) =
              (of_nat (canvas_width loaded_state) / 2
                 - (of_nat (canvas_width loaded_state) / 2 - fst (pan loaded_state))
                   * 2 powi (zoom (setZoom 5 loaded_state) - zoom loaded_state),
               of_nat (canvas_height loaded_state) / 2
                 - (of_nat (canvas_height loaded_state) / 2 - snd (pan loaded_state))
                   * 2 powi (zoom (setZoom 5 loaded_state) - zoom loaded_state))"
    by (simp_all add: moon_def)
  have p: "pan (setZoom 5 loaded_state) = (0, - 128)"
    unfolding a(3) unfolding a(1) d by simp
  from setZoom_clamps_and_invalidates[OF h1 h2, of "- 3"]
  have b: "zoom (setZoom (- 3) loaded_state) = 0" by (simp add: moon_def)
  from setZoom_clamps_and_invalidates[OF h1 h2, of 1] e(2)
  have c: "setZoom 1 loaded_state = loaded_state" by simp
  from h1 h2 e a(1,2) p b c show ?thesis by blast
qed

subsection \<open>Failed fetches\<close>

text \<open>
  C8. A fetch that ends with a response that is not ok, or with a rejection (transport
  error, decoding error), is settled in the same way: the cache is unchanged and the key
  is deleted from \<^verbatim>\<open>loadingTiles\<close>; in every reachable state the key is still absent from
  \<^verbatim>\<open>loadingTiles\<close> when the continuation suspends again. So the key passes the
  coordinator's test again unless it was cached before, and a pass that reaches the tile
  then requests it once more.
\<close>

theorem failed_fetch_leaves_tile_absent:
  "settle t NotOk s = settle t Rejected s
 \<and> tileImages (settle t NotOk s) = tileImages s
 \<and> tile_key t \<notin> loadingTiles (settle t NotOk s)
 \<and> tileImages (fetchDone i NotOk s) = tileImages s
 \<and> fetchDone i NotOk s = fetchDone i Rejected s
 \<and> (i < length (suspended (run es (init w h))) \<longrightarrow>
      fetch_key (suspended (run es (init w h)) ! i)
        \<notin> loadingTiles (fetchDone i NotOk (run es (init w h))))
 \<and> (tileImages s (tile_key t) = None \<longrightarrow> needsFetch (settle t NotOk s) (tile_key t))
 \<and> (tileImages s (tile_key t) = None \<and> currentProduct s = Some p \<longrightarrow>
      runLoop (t # ts) (settle t NotOk s) =
        (settle t NotOk s)
          \<lparr> loadingTiles := insert (tile_key t) (loadingTiles (settle t NotOk s)),
            suspended := suspended s @ [\<lparr> f_tile = t, f_product = pid p, f_rest = ts \<rparr>] \<rparr>)"
proof -
  have R: "i < length (suspended (run es (init w h))) \<longrightarrow>
      fetch_key (suspended (run es (init w h)) ! i)
        \<notin> loadingTiles (fetchDone i NotOk (run es (init w h)))"
    using fetchDone_removes_key[OF reachable_passes_ok] by (intro impI)
  have S: "settle t NotOk s = settle t Rejected s
 \<and> tileImages (settle t NotOk s) = tileImages s
 \<and> tile_key t \<notin> loadingTiles (settle t NotOk s)
 \<and> tileImages (fetchDone i NotOk s) = tileImages s
 \<and> fetchDone i NotOk s = fetchDone i Rejected s
 \<and> (tileImages s (tile_key t) = None \<longrightarrow> needsFetch (settle t NotOk s) (tile_key t))
 \<and> (tileImages s (tile_key t) = None \<and> currentProduct s = Some p \<longrightarrow>
      runLoop (t # ts) (settle t NotOk s) =
        (settle t NotOk s)
          \<lparr> loadingTiles := insert (tile_key t) (loadingTiles (settle t NotOk s)),
            suspended := suspended s @ [\<lparr> f_tile = t, f_product = pid p, f_rest = ts \<rparr>] \<rparr>)"
    by (simp add: settle_def fetchDone_def needsFetch_def Let_def)
  from R S show ?thesis by (intro conjI) (elim conjE, assumption)+
qed

theorem failed_fetch_leaves_tile_absent_witness:
  "tileImages (grid_state 1024 768 3 (0, 0)) (tile_key (Tile 2 5 3)) = None \<and>
   currentProduct (grid_state 1024 768 3 (0, 0)) = Some moon \<and>
   needsFetch (settle (Tile 2 5 3) NotOk (grid_state 1024 768 3 (0, 0))) (tile_key (Tile 2 5 3)) \<and>
   loadingTiles (runLoop [Tile 2 5 3] (settle (Tile 2 5 3) NotOk (grid_state 1024 768 3 (0, 0))))
     = {''3-2-5''} \<and>
   0 < length (suspended (run [ProductsLoaded [moon], MouseDown 0 0, MouseMove 0 0] (init 1024 768))) \<and>
   fetch_key (suspended (run [ProductsLoaded [moon], MouseDown 0 0, MouseMove 0 0] (init 1024 768)) ! 0)
     = ''1-0-0'' \<and>
   ''1-0-0'' \<notin> loadingTiles (fetchDone 0 NotOk
        (run [ProductsLoaded [moon], MouseDown 0 0, MouseMove 0 0] (init 1024 768)))"
proof -
  have h: "tileImages (grid_state 1024 768 3 (0, 0)) (tile_key (Tile 2 5 3)) = None"
    "currentProduct (grid_state 1024 768 3 (0, 0)) = Some moon"
    by (simp_all add: grid_state_def init_def)
  have k: "tile_key (Tile 2 5 3) = ''3-2-5''" by (simp add: key_defs)
  have l: "loadingTiles (settle (Tile 2 5 3) NotOk (grid_state 1024 768 3 (0, 0))) = {}"
    by (simp add: settle_def grid_state_def init_def)
  have r: "0 < length (suspended (run [ProductsLoaded [moon], MouseDown 0 0, MouseMove 0 0] (init 1024 768)))"
    "fetch_key (suspended (run [ProductsLoaded [moon], MouseDown 0 0, MouseMove 0 0] (init 1024 768)) ! 0)
     = ''1-0-0''"
    by (simp_all add: trace_defs fetch_key_def)
  note T = failed_fetch_leaves_tile_absent
         [where t = "Tile 2 5 3" and s = "grid_state 1024 768 3 (0, 0)" and i = 0 and p = moon
           and ts = "[]" and es = "[ProductsLoaded [moon], MouseDown 0 0, MouseMove 0 0]"
           and w = 1024 and h = 768]
  from T h
  have n: "needsFetch (settle (Tile 2 5 3) NotOk (grid_state 1024 768 3 (0, 0))) (tile_key (Tile 2 5 3))"
    by blast
  from T h
  have "runLoop [Tile 2 5 3] (settle (Tile 2 5 3) NotOk (grid_state 1024 768 3 (0, 0))) =
        (settle (Tile 2 5 3) NotOk (grid_state 1024 768 3 (0, 0)))
          \<lparr> loadingTiles := insert (tile_key (Tile 2 5 3))
               (loadingTiles (settle (Tile 2 5 3) NotOk (grid_state 1024 768 3 (0, 0)))),
            suspended := suspended (grid_state 1024 768 3 (0, 0))
               @ [\<lparr> f_tile = Tile 2 5 3, f_product = pid moon, f_rest = [] \<rparr>] \<rparr>"
    by blast
  then have q: "loadingTiles (runLoop [Tile 2 5 3] (settle (Tile 2 5 3) NotOk (grid_state 1024 768 3 (0, 0))))
     = {''3-2-5''}"
    by (simp add: k l)
  from T r(1)
  have "fetch_key (suspended (run [ProductsLoaded [moon], MouseDown 0 0, MouseMove 0 0] (init 1024 768)) ! 0)
     \<notin> loadingTiles (fetchDone 0 NotOk
        (run [ProductsLoaded [moon], MouseDown 0 0, MouseMove 0 0] (init 1024 768)))"
    by blast
  then have g: "''1-0-0'' \<notin> loadingTiles (fetchDone 0 NotOk
        (run [ProductsLoaded [moon], MouseDown 0 0, MouseMove 0 0] (init 1024 768)))"
    unfolding r(2) .
  show ?thesis by (intro conjI h n q r g)
qed

subsection \<open>No product selected\<close>

text \<open>
  C9 (as amended). While no product is selected, a zoom request (\<^verbatim>\<open>setZoom\<close>, the wheel)
  leaves the whole state unchanged. A drag leaves zoom, cache, in-flight set and pending
  fetches unchanged and starts no fetch, but it is not a no-op: mouse-down records the
  drag anchor, and a mouse-move while dragging sets the pan to pointer minus anchor.
\<close>

theorem without_product:
  assumes "currentProduct s = None"
  shows "setZoom newZoom s = s \<and> handleWheel dy s = s
       \<and> handleMouseDown cx cy s
           = s\<lparr> isDragging := True, dragStart := (cx - fst (pan s), cy - snd (pan s)) \<rparr>
       \<and> handleMouseMove cx cy s
           = (if isDragging s
              then s\<lparr> pan := (cx - fst (dragStart s), cy - snd (dragStart s)) \<rparr>
              else s)"
  using assms
  by (simp add: setZoom_def handleWheel_def handleMouseDown_def handleMouseMove_def
      loadVisibleTiles_def)

text \<open>
  As stated, the claim has the pan unchanged by a drag without a product: pressing at
  (0, 0) and moving to (10, 5) in the initial state moves the pan from (0, 0) to (10, 5).
\<close>

theorem drag_without_product_counterexample:
  "currentProduct (init 1024 768) = None \<and> pan (init 1024 768) = (0, 0) \<and>
   pan (run [MouseDown 0 0, MouseMove 10 5] (init 1024 768)) = (10, 5)"
  by (simp add: trace_defs)

theorem without_product_witness:
  "currentProduct (init 1024 768) = None \<and>
   setZoom 2 (init 1024 768) = init 1024 768 \<and>
   handleWheel 1 (init 1024 768) = init 1024 768 \<and>
   pan (handleMouseDown 3 4 (init 1024 768)) = pan (init 1024 768) \<and>
   handleMouseMove 10 5 (init 1024 768) = init 1024 768"
proof -
  have h: "currentProduct (init 1024 768) = None" by (simp add: init_def)
  have d: "\<not> isDragging (init 1024 768)" by (simp add: init_def)
  from without_product[OF h, of 2 1 3 4] without_product[OF h, of 2 1 10 5] d h
  show ?thesis by simp
qed

subsection \<open>Reset\<close>

text \<open>
  C10 (as amended). \<^verbatim>\<open>resetView\<close> sets the zoom to 1 and leaves the cache, the in-flight
  set and the pending fetches as they are, and so does the arrival of the product list.
  The cache is cleared on a product change, where \<^verbatim>\<open>handleProductChange\<close> calls
  \<^verbatim>\<open>clearTileCache\<close> after \<^verbatim>\<open>resetView\<close>.
\<close>

theorem reset_view:
  "zoom (resetView s) = 1
 \<and> tileImages (resetView s) = tileImages s
 \<and> loadingTiles (resetView s) = loadingTiles s
 \<and> suspended (resetView s) = suspended s
 \<and> tileImages (loadProducts ps s) = tileImages s
 \<and> loadingTiles (loadProducts ps s) = loadingTiles s
 \<and> zoom (handleProductChange q s) = 1
 \<and> tileImages (handleProductChange q s) = Map.empty"
  by (simp add: resetView_def loadProducts_def handleProductChange_def split: list.split)

text \<open>
  As stated, the claim has every reset clear the cache: the reset button at zoom 2, with
  a tile of zoom 2 cached, goes back to zoom 1 and keeps the tile.
\<close>

theorem reset_keeps_cache_counterexample:
  "zoom (run [ProductsLoaded [moon], MouseDown 0 0, MouseMove 0 0, ZoomIn,
              FetchDone 1 (Loaded 7), ResetClick] (init 1024 768)) = 1 \<and>
   tileImages (run [ProductsLoaded [moon], MouseDown 0 0, MouseMove 0 0, ZoomIn,
              FetchDone 1 (Loaded 7), ResetClick] (init 1024 768)) ''2-0-0'' = Some 7"
  by (simp add: trace_defs)

text \<open>
  The pan that \<^verbatim>\<open>resetView\<close> assigns is half the canvas size minus half of \<^verbatim>\<open>TILE_SIZE\<close>.
  At zoom 1 a tile is drawn \<open>2 * TILE_SIZE\<close> pixels wide, so the middle of tile (0,0) lies
  128 pixels right of and below the middle of the canvas.
\<close>

lemma resetView_centres_no_tile:
  "fst (pan (resetView s)) + tileScale (resetView s) / 2 = of_nat (canvas_width s) / 2 + 128"
  "snd (pan (resetView s)) + tileScale (resetView s) / 2 = of_nat (canvas_height s) / 2 + 128"
  by (simp_all add: resetView_def tileScale_def TILE_SIZE_def)

end
